theory Spec2Isabelle
  imports Complex_Main "HOL-Library.Sublist" "HOL-Library.Multiset"
begin

section \<open>Strings\<close>

text \<open>
  A JavaScript string is modelled as the list of the bytes of its UTF-8 encoding
  (\<^typ>\<open>string\<close>). Equality, \<open>startsWith\<close>, \<open>endsWith\<close> and \<open>includes\<close> with
  a well-formed needle give the same answers on that encoding as on the code units.
  The non-ASCII literals of the source (em dash, en dash, bullet) are their three
  bytes. \<open>toLowerCase\<close> and the white space of \<open>trim\<close> and \<open>\s\<close> are modelled on
  ASCII: letters and spaces beyond ASCII are left as they are.
\<close>

definition lower_char :: "char \<Rightarrow> char" where
  "lower_char c =
     (case map_of (zip ''ABCDEFGHIJKLMNOPQRSTUVWXYZ'' ''abcdefghijklmnopqrstuvwxyz'') c of
        Some d \<Rightarrow> d
      | None \<Rightarrow> c)"

definition toLowerCase :: "string \<Rightarrow> string" where
  "toLowerCase s = map lower_char s"

definition isSpace :: "char \<Rightarrow> bool" where
  "isSpace c = (c \<in> set [CHR 0x09, CHR 0x0A, CHR 0x0B, CHR 0x0C, CHR 0x0D, CHR 0x20])"

definition isDigit :: "char \<Rightarrow> bool" where
  "isDigit c = (c \<in> set ''0123456789'')"

definition trim :: "string \<Rightarrow> string" where
  "trim s = rev (dropWhile isSpace (rev (dropWhile isSpace s)))"

definition startsWith :: "string \<Rightarrow> string \<Rightarrow> bool" where
  "startsWith s p = (take (length p) s = p)"

definition endsWith :: "string \<Rightarrow> string \<Rightarrow> bool" where
  "endsWith s p = (length p \<le> length s \<and> drop (length s - length p) s = p)"

text \<open>\<open>s.includes(p)\<close>: the needle is tried at every position, left to right.\<close>

fun includesStr :: "string \<Rightarrow> string \<Rightarrow> bool" where
  "includesStr [] p = (p = [])"
| "includesStr (c # cs) p = (startsWith (c # cs) p \<or> includesStr cs p)"

text \<open>\<open>s.replace(p, r)\<close> with a string pattern: the first occurrence only.\<close>

fun replaceFirst :: "string \<Rightarrow> string \<Rightarrow> string \<Rightarrow> string" where
  "replaceFirst p r [] = (if p = [] then r else [])"
| "replaceFirst p r (c # cs) =
     (if startsWith (c # cs) p then r @ drop (length p) (c # cs)
      else c # replaceFirst p r cs)"

section \<open>Row classification\<close>

text \<open>\<open>isRowTotal\<close> of the formatting library.\<close>

definition isRowTotal :: "string \<Rightarrow> bool" where
  "isRowTotal label =
     (let lower = trim (toLowerCase label) in
        startsWith lower ''total'' \<or>
        startsWith lower ''= '' \<or>
        includesStr lower ''net income'' \<or>
        includesStr lower ''gross profit'' \<or>
        includesStr lower ''ebitda'' \<or>
        includesStr lower ''ebit'' \<or>
        lower = ''net cash'')"

text \<open>\<open>isRowSubtotal\<close> of the formatting library.\<close>

definition isRowSubtotal :: "string \<Rightarrow> bool" where
  "isRowSubtotal label =
     (let lower = trim (toLowerCase label) in
        startsWith lower ''subtotal'' \<or> startsWith lower ''sub-total'')"

text \<open>\<open>isTotalRow\<close> of the report renderer.\<close>

definition isTotalRow :: "string \<Rightarrow> bool" where
  "isTotalRow label =
     (let lower = trim (toLowerCase label) in
        startsWith lower ''total'' \<or>
        startsWith lower ''= '' \<or>
        includesStr lower ''net income'' \<or>
        includesStr lower ''gross profit'' \<or>
        lower = ''ebitda'' \<or>
        lower = ''ebit'' \<or>
        lower = ''net cash'')"

section \<open>Regular expressions\<close>

text \<open>
  The regular expressions of the source are written as terms of \<open>regex\<close> and run
  by a backtracking matcher with the priorities of JavaScript: the alternatives of
  \<open>|\<close> left to right, \<open>*\<close>, \<open>+\<close> and \<open>?\<close> greedy, and an iteration of \<open>*\<close>
  that consumes nothing is not taken. \<open>Sat P\<close> is one character that satisfies
  \<open>P\<close> (a literal, a class or the dot), \<open>Eol\<close> is \<open>$\<close> without the \<open>m\<close> flag,
  and \<open>Group\<close> is the capturing group (each expression of the source has
  at most one). Characters are bytes of UTF-8, so the bullet of a class is an
  alternative of its three bytes.
\<close>

datatype regex =
    Eps
  | Sat "char \<Rightarrow> bool"
  | Seq regex regex
  | Alt regex regex
  | Star regex
  | Eol
  | Group regex

text \<open>
  All ways to match at the start of the input, best first: each result is the
  input left over and the text of the capturing group, if it took part.
\<close>

fun ms :: "regex \<Rightarrow> string \<times> string option \<Rightarrow> (string \<times> string option) list" where
  "ms Eps st = [st]"
| "ms (Sat P) (s, cap) =
     (case s of [] \<Rightarrow> [] | d # ds \<Rightarrow> if P d then [(ds, cap)] else [])"
| "ms (Seq a b) st = concat (map (ms b) (ms a st))"
| "ms (Alt a b) st = ms a st @ ms b st"
| "ms (Star r) (s, cap) =
     concat (map (\<lambda>st'. if length (fst st') < length s then ms (Star r) st' else [])
                 (ms r (s, cap)))
     @ [(s, cap)]"
| "ms Eol (s, cap) = (if s = [] then [(s, cap)] else [])"
| "ms (Group r) (s, cap) =
     map (\<lambda>st'. (fst st', Some (take (length s - length (fst st')) s))) (ms r (s, cap))"

definition seqs :: "regex list \<Rightarrow> regex" where
  "seqs rs = foldr Seq rs Eps"

definition chr :: "char \<Rightarrow> regex" where
  "chr c = Sat (\<lambda>d. d = c)"

definition lit :: "string \<Rightarrow> regex" where
  "lit s = seqs (map chr s)"

text \<open>A literal under the \<open>i\<close> flag.\<close>

definition lit_i :: "string \<Rightarrow> regex" where
  "lit_i s = seqs (map (\<lambda>c. Sat (\<lambda>d. lower_char d = lower_char c)) s)"

definition opt :: "regex \<Rightarrow> regex" where
  "opt r = Alt r Eps"

definition many1 :: "regex \<Rightarrow> regex" where
  "many1 r = Seq r (Star r)"

definition cls :: "string \<Rightarrow> regex" where
  "cls cs = Sat (\<lambda>d. d \<in> set cs)"

definition ncls :: "string \<Rightarrow> regex" where
  "ncls cs = Sat (\<lambda>d. d \<notin> set cs)"

definition space :: regex where
  "space = Sat isSpace"

definition digit :: regex where
  "digit = Sat isDigit"

definition isLineTerminator :: "char \<Rightarrow> bool" where
  "isLineTerminator c = (c = CHR 0x0A \<or> c = CHR 0x0D)"

definition dot :: regex where
  "dot = Sat (\<lambda>d. \<not> isLineTerminator d)"

text \<open>
  The first match in the input, as \<open>exec\<close> finds it from index 0: the text
  before the match, the match, the capture and the text after the match.
\<close>

fun searchRe :: "regex \<Rightarrow> string \<Rightarrow> (string \<times> string \<times> string option \<times> string) option" where
  "searchRe r [] =
     (case ms r ([], None) of
        [] \<Rightarrow> None
      | (rest, cap) # _ \<Rightarrow> Some ([], [], cap, []))"
| "searchRe r (c # cs) =
     (case ms r (c # cs, None) of
        (rest, cap) # _ \<Rightarrow>
          Some ([], take (length (c # cs) - length rest) (c # cs), cap, rest)
      | [] \<Rightarrow>
          (case searchRe r cs of
             None \<Rightarrow> None
           | Some (before, m, cap, after) \<Rightarrow> Some (c # before, m, cap, after)))"

text \<open>\<open>r.test(s)\<close>.\<close>

definition testRe :: "regex \<Rightarrow> string \<Rightarrow> bool" where
  "testRe r s = (searchRe r s \<noteq> None)"

text \<open>
  \<open>s.match(r)\<close> with the \<open>g\<close> flag: the texts of all matches, left to right. The
  number counts the characters of the last match still to be passed over; after an
  empty match the search moves on by one character.
\<close>

fun matchAllFrom :: "regex \<Rightarrow> nat \<Rightarrow> string \<Rightarrow> string list" where
  "matchAllFrom r k [] =
     (if k = 0 \<and> ms r ([], None) \<noteq> [] then [[]] else [])"
| "matchAllFrom r (Suc k) (c # cs) = matchAllFrom r k cs"
| "matchAllFrom r 0 (c # cs) =
     (case ms r (c # cs, None) of
        [] \<Rightarrow> matchAllFrom r 0 cs
      | (rest, cap) # _ \<Rightarrow>
          take (length (c # cs) - length rest) (c # cs)
            # matchAllFrom r (length (c # cs) - length rest - 1) cs)"

definition matchAll :: "regex \<Rightarrow> string \<Rightarrow> string list" where
  "matchAll r s = matchAllFrom r 0 s"

text \<open>\<open>s.replace(r, rep)\<close> with the \<open>g\<close> flag and a replacement without \<open>$\<close>.\<close>

fun replaceAllFrom :: "regex \<Rightarrow> string \<Rightarrow> nat \<Rightarrow> string \<Rightarrow> string" where
  "replaceAllFrom r rep k [] =
     (if k = 0 \<and> ms r ([], None) \<noteq> [] then rep else [])"
| "replaceAllFrom r rep (Suc k) (c # cs) = replaceAllFrom r rep k cs"
| "replaceAllFrom r rep 0 (c # cs) =
     (case ms r (c # cs, None) of
        [] \<Rightarrow> c # replaceAllFrom r rep 0 cs
      | (rest, cap) # _ \<Rightarrow>
          if length (c # cs) - length rest = 0
          then rep @ c # replaceAllFrom r rep 0 cs
          else rep @ replaceAllFrom r rep (length (c # cs) - length rest - 1) cs)"

definition replaceAll :: "regex \<Rightarrow> string \<Rightarrow> string \<Rightarrow> string" where
  "replaceAll r rep s = replaceAllFrom r rep 0 s"

text \<open>
  \<open>s.replace(/^r/, '')\<close> without flags: the anchor lets the expression match at
  index 0 only, and the match is removed.
\<close>

definition removeAtStart :: "regex \<Rightarrow> string \<Rightarrow> string" where
  "removeAtStart r s =
     (case ms r (s, None) of
        [] \<Rightarrow> s
      | (rest, cap) # _ \<Rightarrow> rest)"

section \<open>Special-block extractor\<close>

definition bullet :: string where
  "bullet = [CHR 0xE2, CHR 0x80, CHR 0xA2]"

text \<open>\<open>#{1,4}\<close>.\<close>

definition hashes :: regex where
  "hashes =
     Seq (chr CHR ''#'') (opt (Seq (chr CHR ''#'') (opt (Seq (chr CHR ''#'') (opt (chr CHR ''#''))))))"

text \<open>The classes \<open>[-*\<bullet>]\<close> and \<open>[-*\<bullet>?]\<close>, and \<open>[:\s]\<close>.\<close>

definition bulletMark :: regex where
  "bulletMark = Alt (cls ''-*'') (lit bullet)"

definition questionMark :: regex where
  "questionMark = Alt (cls ''-*?'') (lit bullet)"

definition colonOrSpace :: regex where
  "colonOrSpace = Sat (\<lambda>d. d = CHR '':'' \<or> isSpace d)"

definition isExecutiveInsightsHeader :: "string \<Rightarrow> bool" where
  "isExecutiveInsightsHeader text =
     (let lower = toLowerCase text in
        includesStr lower ''executive insight'' \<or>
        includesStr lower ''top insight'' \<or>
        includesStr lower ''numeric callout'' \<or>
        includesStr lower ''with callout'')"

text \<open>
  \<open>/(?:#{1,4}\s*)?(?:\*\*)?(?:\d+\.?\d*\s+)?(?:Top\s+)?Executive\s+(?:Insights?|Summary)(?:\*\*)?[:\s]*(?:\([^)]*\))?\s*\n((?:(?:\d+\.|[-\<bullet>*])\s+.+(?:\n|$))+)/gi\<close>
\<close>

definition sectionPattern :: regex where
  "sectionPattern =
     seqs [opt (seqs [hashes, Star space]),
           opt (lit ''**''),
           opt (seqs [many1 digit, opt (chr CHR ''.''), Star digit, many1 space]),
           opt (seqs [lit_i ''Top'', many1 space]),
           lit_i ''Executive'', many1 space,
           Alt (seqs [lit_i ''Insight'', opt (lit_i ''s'')]) (lit_i ''Summary''),
           opt (lit ''**''),
           Star colonOrSpace,
           opt (seqs [chr CHR ''('', Star (ncls '')''), chr CHR '')'']),
           Star space, chr CHR 0x0A,
           Group (many1 (seqs [Alt (seqs [many1 digit, chr CHR ''.'']) bulletMark,
                              many1 space, many1 dot, Alt (chr CHR 0x0A) Eol]))]"

text \<open>\<open>s.split(/\n/)\<close>.\<close>

fun splitLines :: "string \<Rightarrow> string \<Rightarrow> string list" where
  "splitLines acc [] = [rev acc]"
| "splitLines acc (c # cs) =
     (if c = CHR 0x0A then rev acc # splitLines [] cs else splitLines (c # acc) cs)"

definition extractExecutiveInsights :: "string \<Rightarrow> string list \<times> string" where
  "extractExecutiveInsights content =
     (case searchRe sectionPattern content of
        None \<Rightarrow> ([], content)
      | Some (before, match0, match1, after) \<Rightarrow>
          let insightsBlock = (case match1 of None \<Rightarrow> [] | Some b \<Rightarrow> b);
              insights =
                filter (\<lambda>line. length line > 0 \<and> \<not> isExecutiveInsightsHeader line)
                  (map (\<lambda>line.
                          trim (removeAtStart (seqs [bulletMark, Star space])
                                 (removeAtStart (seqs [many1 digit, chr CHR ''.'', Star space])
                                    line)))
                       (splitLines [] insightsBlock));
              remainingContent = replaceFirst match0 [CHR 0x0A] content
          in (insights, remainingContent))"

text \<open>
  \<open>/(?:#{1,4}\s*)?(?:\*\*)?Key\s+Takeaways(?:\*\*)?[:\s]*(?:\([^)]+\))?\s*\n((?:[-*\<bullet>]\s*.+(?:\n|$))+)/gi\<close>
\<close>

definition takeawaysPattern :: regex where
  "takeawaysPattern =
     seqs [opt (seqs [hashes, Star space]),
           opt (lit ''**''),
           lit_i ''Key'', many1 space, lit_i ''Takeaways'',
           opt (lit ''**''),
           Star colonOrSpace,
           opt (seqs [chr CHR ''('', many1 (ncls '')''), chr CHR '')'']),
           Star space, chr CHR 0x0A,
           Group (many1 (seqs [bulletMark, Star space, many1 dot, Alt (chr CHR 0x0A) Eol]))]"

text \<open>
  \<open>/(?:#{1,4}\s*)?(?:\*\*)?Questions?\s+(?:for\s+)?Management(?:\*\*)?[:\s]*(?:\([^)]+\))?\s*\n((?:[-*\<bullet>?]\s*.+(?:\n|$))+)/gi\<close>
\<close>

definition questionsPattern :: regex where
  "questionsPattern =
     seqs [opt (seqs [hashes, Star space]),
           opt (lit ''**''),
           lit_i ''Question'', opt (lit_i ''s''), many1 space,
           opt (seqs [lit_i ''for'', many1 space]),
           lit_i ''Management'',
           opt (lit ''**''),
           Star colonOrSpace,
           opt (seqs [chr CHR ''('', many1 (ncls '')''), chr CHR '')'']),
           Star space, chr CHR 0x0A,
           Group (many1 (seqs [questionMark, Star space, many1 dot, Alt (chr CHR 0x0A) Eol]))]"

record SpecialSections =
  content :: string
  keyTakeaways :: "string list"
  questions :: "string list"
  executiveInsights :: "string list"

text \<open>
  \<open>parseSpecialSections\<close>. The items of a block are looked for in the whole text of
  the match (\<open>match.match(/[-*\<bullet>]\s*(.+)/g)\<close>), heading line included. \<open>if (text)\<close>
  is true for a non-empty string.
\<close>

definition parseSpecialSections :: "string \<Rightarrow> SpecialSections" where
  "parseSpecialSections markdown =
     (let content = markdown;
          (executiveInsights, afterInsights) = extractExecutiveInsights content;
          content = afterInsights;
          takeawaysMatch = matchAll takeawaysPattern content;
          keyTakeaways =
            concat (map (\<lambda>match.
                      filter (\<lambda>text. text \<noteq> [])
                        (map (\<lambda>item. trim (removeAtStart (seqs [bulletMark, Star space]) item))
                             (matchAll (seqs [bulletMark, Star space, Group (many1 dot)]) match)))
                    takeawaysMatch);
          content = (if takeawaysMatch \<noteq> [] then replaceAll takeawaysPattern [CHR 0x0A] content
                     else content);
          questionsMatch = matchAll questionsPattern content;
          questions =
            concat (map (\<lambda>match.
                      filter (\<lambda>text. text \<noteq> [])
                        (map (\<lambda>item. trim (removeAtStart (seqs [many1 questionMark, Star space]) item))
                             (matchAll (seqs [questionMark, Star space, Group (many1 dot)]) match)))
                    questionsMatch);
          content = (if questionsMatch \<noteq> [] then replaceAll questionsPattern [CHR 0x0A] content
                     else content)
      in \<lparr> content = trim content, keyTakeaways = keyTakeaways, questions = questions,
           executiveInsights = executiveInsights \<rparr>)"

text \<open>Concrete section texts, used as inputs below.\<close>

definition exampleBold :: string where
  "exampleBold =
     ''**Key Takeaways**'' @ [CHR 0x0A] @
     ''- Revenue up'' @ [CHR 0x0A] @ ''- Margin down'' @ [CHR 0x0A] @ ''- Cash stable'' @ [CHR 0x0A] @
     [CHR 0x0A] @
     ''**Questions for Management**'' @ [CHR 0x0A] @
     ''- Why?'' @ [CHR 0x0A] @ ''- When?'' @ [CHR 0x0A]"

definition examplePlainBlocks :: string where
  "examplePlainBlocks =
     ''Narrative.'' @ [CHR 0x0A] @
     ''Key Takeaways (Revenue)'' @ [CHR 0x0A] @
     ''- Revenue up'' @ [CHR 0x0A] @ ''- Margin down'' @ [CHR 0x0A] @ ''- Cash stable'' @ [CHR 0x0A] @
     [CHR 0x0A] @
     ''Questions for Management (Revenue)'' @ [CHR 0x0A] @
     ''- Why?'' @ [CHR 0x0A] @ ''- When?'' @ [CHR 0x0A]"

definition exampleTwoBlocks :: string where
  "exampleTwoBlocks =
     ''### Key Takeaways'' @ [CHR 0x0A] @ ''- One'' @ [CHR 0x0A] @ ''- Two'' @ [CHR 0x0A] @
     ''Text between.'' @ [CHR 0x0A] @
     ''### Key Takeaways'' @ [CHR 0x0A] @ ''- Three'' @ [CHR 0x0A]"

section \<open>Section parser\<close>

record SectionDefinition =
  key :: string
  pattern :: regex
  order :: nat

definition sectionDefinitions :: "SectionDefinition list" where
  "sectionDefinitions =
     [\<lparr> key = ''executive_snapshot'',
         pattern = seqs [lit_i ''executive'', Star space, lit_i ''snapshot''], order = 1 \<rparr>,
      \<lparr> key = ''revenue_performance'',
         pattern = seqs [lit_i ''revenue'', Star space, lit_i ''performance''], order = 2 \<rparr>,
      \<lparr> key = ''cogs_gross_margin'',
         pattern = Alt (lit_i ''cogs'') (seqs [lit_i ''gross'', Star space, lit_i ''margin'']),
         order = 3 \<rparr>,
      \<lparr> key = ''operating_expenses'',
         pattern = seqs [lit_i ''operating'', Star space, lit_i ''expenses''], order = 4 \<rparr>,
      \<lparr> key = ''profitability_bridges'',
         pattern = Alt (lit_i ''profitability'') (lit_i ''bridges''), order = 5 \<rparr>,
      \<lparr> key = ''variance_performance'',
         pattern = Alt (lit_i ''variance'') (lit_i ''performance''), order = 6 \<rparr>,
      \<lparr> key = ''cash_flow_liquidity'',
         pattern = Alt (seqs [lit_i ''cash'', Star space, lit_i ''flow'']) (lit_i ''liquidity''),
         order = 7 \<rparr>,
      \<lparr> key = ''balance_sheet_health'',
         pattern = seqs [lit_i ''balance'', Star space, lit_i ''sheet''], order = 8 \<rparr>,
      \<lparr> key = ''risk_controls'',
         pattern = Alt (lit_i ''risk'') (lit_i ''controls''), order = 9 \<rparr>]"

record ReportSection =
  key :: string
  name :: string
  order :: nat
  content :: string

text \<open>
  \<open>markdown.split(/^##\s+/m)\<close>. The flag says whether the position is at the
  start of a line (the start of the input, or after a line terminator); the
  second argument is the current part, reversed. At the start of a line, "##"
  followed by white space is a separator, and it takes all the white space that
  follows, line breaks included.
\<close>

definition h2Match :: "string \<Rightarrow> bool" where
  "h2Match s = (startsWith s ''##'' \<and> (case drop 2 s of [] \<Rightarrow> False | d # _ \<Rightarrow> isSpace d))"

function splitH2 :: "bool \<Rightarrow> string \<Rightarrow> string \<Rightarrow> string list" where
  "splitH2 lineStart acc [] = [rev acc]"
| "splitH2 lineStart acc (c # cs) =
     (if lineStart \<and> h2Match (c # cs)
      then rev acc #
           splitH2 (isLineTerminator (last (takeWhile isSpace (drop 2 (c # cs))))) []
                   (dropWhile isSpace (drop 2 (c # cs)))
      else splitH2 (isLineTerminator c) (c # acc) cs)"
  by pat_completeness auto
termination
  by (relation "measure (\<lambda>(lineStart, acc, s). length s)")
     (auto intro: le_less_trans [OF length_dropWhile_le])

text \<open>\<open>part.indexOf("\n")\<close>.\<close>

definition indexOfNewline :: "string \<Rightarrow> int" where
  "indexOfNewline s =
     (if CHR 0x0A \<in> set s then int (length (takeWhile (\<lambda>c. c \<noteq> CHR 0x0A) s)) else - 1)"

text \<open>\<open>String(n)\<close> for a natural number.\<close>

definition digitChar :: "nat \<Rightarrow> char" where
  "digitChar n = ''0123456789'' ! n"

function natToString :: "nat \<Rightarrow> string" where
  "natToString n = (if n < 10 then [digitChar n] else natToString (n div 10) @ [digitChar (n mod 10)])"
  by pat_completeness auto
termination
  by (relation "measure id") auto

declare natToString.simps [simp del]

text \<open>The body of the loop over the parts: the title, the content, and the first
  definition whose pattern the title matches, if there is one.\<close>

definition partTitle :: "string \<Rightarrow> string" where
  "partTitle part =
     (let firstLineEnd = indexOfNewline part in
        if firstLineEnd > 0 then trim (take (nat firstLineEnd) part) else trim part)"

definition partContent :: "string \<Rightarrow> string" where
  "partContent part =
     (let firstLineEnd = indexOfNewline part in
        if firstLineEnd > 0 then trim (drop (nat firstLineEnd + 1) part) else [])"

definition sectionOfPart :: "string \<Rightarrow> ReportSection option" where
  "sectionOfPart part =
     (let title = partTitle part;
          content = partContent part
      in case find (\<lambda>def. testRe (pattern def) title) sectionDefinitions of
           None \<Rightarrow> None
         | Some def \<Rightarrow>
             Some \<lparr> key = SectionDefinition.key def,
                    name = natToString (SectionDefinition.order def) @ ''. '' @
                           removeAtStart (seqs [many1 digit, chr CHR ''.'', Star space]) title,
                    order = SectionDefinition.order def,
                    content = ''## '' @ title @ [CHR 0x0A, CHR 0x0A] @ content \<rparr>)"

text \<open>The sections pushed by the loop, in document order.\<close>

definition matchedSections :: "string \<Rightarrow> ReportSection list" where
  "matchedSections markdown =
     List.map_filter sectionOfPart (tl (splitH2 True [] markdown))"

definition parseReportSections :: "string \<Rightarrow> ReportSection list" where
  "parseReportSections markdown =
     (let sections = matchedSections markdown;
          sections = sort_key order sections
      in if length sections = 0 \<and> trim markdown \<noteq> []
         then sections @
              [\<lparr> key = ''full_report'', name = ''Financial Review'', order = 1,
                 content = markdown \<rparr>]
         else sections)"

text \<open>
  Documents of a known shape, for stating properties of the parser: a preamble
  followed by sections, each a "## " heading line with its title and a body. A body
  (and the preamble) is well formed when it contains no "## " separator of its own
  and is empty or ends with a line break; a title is well formed when it is not
  empty, has no white space at either end and contains no line break.
\<close>

fun noH2 :: "bool \<Rightarrow> string \<Rightarrow> bool" where
  "noH2 lineStart [] = True"
| "noH2 lineStart (c # cs) =
     (\<not> (lineStart \<and> h2Match (c # cs)) \<and> noH2 (isLineTerminator c) cs)"

definition bodyOk :: "string \<Rightarrow> bool" where
  "bodyOk b = (noH2 True b \<and> (b = [] \<or> last b = CHR 0x0A))"

definition titleOk :: "string \<Rightarrow> bool" where
  "titleOk t =
     (t \<noteq> [] \<and> \<not> isSpace (hd t) \<and> \<not> isSpace (last t) \<and>
      list_all (\<lambda>c. \<not> isLineTerminator c) t)"

definition renderSection :: "string \<times> string \<Rightarrow> string" where
  "renderSection tb = ''## '' @ fst tb @ [CHR 0x0A] @ snd tb"

definition document :: "string \<Rightarrow> (string \<times> string) list \<Rightarrow> string" where
  "document pre secs = pre @ concat (map renderSection secs)"

definition canonicalHeadings :: "string list" where
  "canonicalHeadings =
     [''1. Executive Snapshot'', ''2. Revenue Performance'', ''3. COGS & Gross Margin'',
      ''4. Operating Expenses'', ''5. Profitability & Bridges'',
      ''6. Variance & Performance Management'', ''7. Cash Flow & Liquidity'',
      ''8. Balance Sheet Health'', ''9. Risk & Controls'']"

text \<open>
  The section expected for a canonical heading and its body: the key and the order
  of the definition, the heading as the name, and as content a "## " heading line
  of the title, an empty line and the trimmed body.
\<close>

definition canonicalSection :: "SectionDefinition \<Rightarrow> string \<times> string \<Rightarrow> ReportSection" where
  "canonicalSection def tb =
     \<lparr> key = SectionDefinition.key def,
       name = fst tb,
       order = SectionDefinition.order def,
       content = ''## '' @ fst tb @ [CHR 0x0A, CHR 0x0A] @ trim (snd tb) \<rparr>"

text \<open>Concrete documents, used as inputs below.\<close>

definition exampleBodies :: "string list" where
  "exampleBodies =
     map (\<lambda>w. w @ [CHR 0x0A])
       [''alpha'', ''beta'', ''gamma'', ''delta'', ''epsilon'', ''zeta'', ''eta'', ''theta'',
        ''iota'']"

definition exampleScrambled :: string where
  "exampleScrambled =
     document (''Intro'' @ [CHR 0x0A]) (rev (zip canonicalHeadings exampleBodies))"




section \<open>Sheet extractor\<close>

definition CORE_SHEETS :: "string list" where
  "CORE_SHEETS =
     [''PL - RAW'', ''Dynamic PL'', ''BS - RAW'',
      ''Weekly Financial Review'', ''Monthly Comparative'',
      ''Revenue Chart Data'', ''COA - RAW'',
      ''Budget'', ''Forecast'', ''Annual P&L'']"

definition SHEET_NAME_ALIASES :: "string \<rightharpoonup> string list" where
  "SHEET_NAME_ALIASES =
     map_of
      [(''PL - RAW'', [''P&L - RAW'', ''PL-RAW'', ''P&L RAW'', ''Income Statement'', ''PL Raw'']),
       (''Dynamic PL'', [''Dynamic P&L'', ''DynamicPL'', ''Formatted PL'', ''P&L'']),
       (''BS - RAW'', [''BS-RAW'', ''BS RAW'', ''Balance Sheet'', ''BS Raw'']),
       (''Weekly Financial Review'', [''Weekly Review'', ''Financial Review'', ''Dashboard'']),
       (''Monthly Comparative'', [''Monthly Comparison'', ''MoM Comparative'', ''Comparative''])]"

text \<open>
  The workbook as the spreadsheet library hands it over: the tab names in workbook
  order and the tabs by name. A tab is represented by the CSV text that the
  library's \<open>sheet_to_csv\<close> gives for it, so \<open>sheetToCsv\<close> only reads it.
\<close>

type_synonym WorkSheet = string

record WorkBook =
  SheetNames :: "string list"
  Sheets :: "string \<Rightarrow> WorkSheet"

record ExtractedSheet =
  name :: string
  csv :: string
  estimatedTokens :: int

record ExtractionResult =
  sheets :: "ExtractedSheet list"
  totalTokens :: int
  missingRequiredSheets :: "string list"
  allSheetNames :: "string list"

text \<open>The alias loop of \<open>findSheetByName\<close>: aliases outermost, tab names innermost.\<close>

fun findAlias :: "string list \<Rightarrow> string list \<Rightarrow> string option" where
  "findAlias names [] = None"
| "findAlias names (alias # aliases) =
     (case find (\<lambda>sheetName. toLowerCase sheetName = toLowerCase alias) names of
        Some sheetName \<Rightarrow> Some sheetName
      | None \<Rightarrow> findAlias names aliases)"

definition findSheetByName :: "WorkBook \<Rightarrow> string \<Rightarrow> string option" where
  "findSheetByName workbook targetName =
     (case find (\<lambda>sheetName. toLowerCase sheetName = toLowerCase targetName)
             (SheetNames workbook) of
        Some sheetName \<Rightarrow> Some sheetName
      | None \<Rightarrow>
          (case SHEET_NAME_ALIASES targetName of
             Some aliases \<Rightarrow> findAlias (SheetNames workbook) aliases
           | None \<Rightarrow> None))"

definition sheetToCsv :: "WorkSheet \<Rightarrow> string" where
  "sheetToCsv sheet = sheet"

text \<open>
  \<open>Math.ceil(text.length / 4)\<close>. The length of the model is the number of
  bytes of the UTF-8 encoding, where \<open>text.length\<close> counts UTF-16 code units:
  the same number on ASCII text.
\<close>

definition estimateTokens :: "string \<Rightarrow> int" where
  "estimateTokens text = (int (length text) + 3) div 4"

text \<open>
  One round of the extraction loop. \<open>if (actualName)\<close> is false for \<open>null\<close> and for
  the empty string; \<open>continue\<close> leaves the result as it is.
\<close>

definition extractStep :: "WorkBook \<Rightarrow> int \<Rightarrow> ExtractionResult \<Rightarrow> string \<Rightarrow> ExtractionResult" where
  "extractStep workbook maxTokens result targetName =
     (case findSheetByName workbook targetName of
        None \<Rightarrow> result
      | Some actualName \<Rightarrow>
          if actualName = [] then result
          else
            let sheet = Sheets workbook actualName;
                csv = sheetToCsv sheet;
                tokens = estimateTokens csv
            in if totalTokens result + tokens > maxTokens then result
               else result
                 \<lparr> sheets := sheets result @
                     [\<lparr> name = actualName, csv = csv, estimatedTokens = tokens \<rparr>],
                   totalTokens := totalTokens result + tokens \<rparr>)"

text \<open>One round of the required-sheets loop; the test does not read \<open>required\<close>.\<close>

definition requiredStep :: "ExtractionResult \<Rightarrow> string \<Rightarrow> ExtractionResult" where
  "requiredStep result required =
     (let found = list_ex
            (\<lambda>s. includesStr (toLowerCase (name s)) ''pl'' \<or>
                 includesStr (toLowerCase (name s)) ''bs'')
            (sheets result)
      in if \<not> found
         then result \<lparr> missingRequiredSheets := missingRequiredSheets result @ [required] \<rparr>
         else result)"

text \<open>\<open>extractCoreSheets\<close>, from the workbook that \<open>XLSX.read\<close> returned.\<close>

definition extractCoreSheets :: "WorkBook \<Rightarrow> int \<Rightarrow> ExtractionResult" where
  "extractCoreSheets workbook maxTokens =
     (let result = \<lparr> sheets = [], totalTokens = 0, missingRequiredSheets = [],
                      allSheetNames = SheetNames workbook \<rparr>;
          result = foldl (extractStep workbook maxTokens) result CORE_SHEETS;
          requiredSheets = [''PL - RAW'', ''BS - RAW'']
      in foldl requiredStep result requiredSheets)"

text \<open>
  The candidates of a run, for stating properties of the loop: the tabs that the
  canonical names of a list resolve to, in priority order, each with its CSV text
  and its cost.
\<close>

definition candidate :: "WorkBook \<Rightarrow> string \<Rightarrow> ExtractedSheet option" where
  "candidate workbook targetName =
     (case findSheetByName workbook targetName of
        None \<Rightarrow> None
      | Some actualName \<Rightarrow>
          if actualName = [] then None
          else Some \<lparr> name = actualName,
                      csv = sheetToCsv (Sheets workbook actualName),
                      estimatedTokens = estimateTokens (sheetToCsv (Sheets workbook actualName)) \<rparr>)"

definition candidates :: "WorkBook \<Rightarrow> string list \<Rightarrow> ExtractedSheet list" where
  "candidates workbook targets = List.map_filter (candidate workbook) targets"

text \<open>Small workbooks, used as concrete inputs below.\<close>

definition wb_aliases :: WorkBook where
  "wb_aliases =
     \<lparr> SheetNames = [''Income Statement'', ''Balance Sheet''],
       Sheets = (\<lambda>n. if n = ''Income Statement'' then ''Revenue,100'' else ''Cash,50'') \<rparr>"

definition wb_income_only :: WorkBook where
  "wb_income_only =
     \<lparr> SheetNames = [''Income Statement''], Sheets = (\<lambda>n. ''Revenue,100'') \<rparr>"

definition wb_three :: WorkBook where
  "wb_three =
     \<lparr> SheetNames = [''PL - RAW'', ''Dynamic PL'', ''BS - RAW''],
       Sheets = (\<lambda>n. if n = ''Dynamic PL'' then ''Revenue,100,200,300,400,''
                      else ''Revenue,100,200,300,'') \<rparr>"

definition wb_pl_only :: WorkBook where
  "wb_pl_only =
     \<lparr> SheetNames = [''PL - RAW''], Sheets = (\<lambda>n. ''Revenue,100'') \<rparr>"

section \<open>Financial number formatting\<close>

text \<open>
  The value handed to \<open>formatFinancialNumber\<close>: \<open>null\<close>, \<open>undefined\<close> or a string.
  A number argument is turned into a string by \<open>String(value)\<close> first; the number
  to string conversion of doubles is outside the model. The \<open>options\<close> argument is
  never read by the function.
\<close>

datatype JsValue = JNull | JUndefined | JString string

fun toStr :: "JsValue \<Rightarrow> string" where
  "toStr JNull = ''null''"
| "toStr JUndefined = ''undefined''"
| "toStr (JString s) = s"

record FormattedNumber =
  "text" :: string
  isNegative :: bool
  isPositive :: bool
  isZero :: bool
  isNA :: bool

definition emDash :: string where
  "emDash = [CHR 0xE2, CHR 0x80, CHR 0x94]"

definition enDash :: string where
  "enDash = [CHR 0xE2, CHR 0x80, CHR 0x93]"

text \<open>\<open>/\d/.test(s)\<close>.\<close>

definition hasDigit :: "string \<Rightarrow> bool" where
  "hasDigit s = list_ex isDigit s"

text \<open>\<open>s.replace(/[^0-9.-]/g, '')\<close>.\<close>

definition numericChars :: "string \<Rightarrow> string" where
  "numericChars s = filter (\<lambda>c. isDigit c \<or> c = CHR ''.'' \<or> c = CHR ''-'') s"

definition digitVal :: "char \<Rightarrow> nat" where
  "digitVal c = (case map_of (zip ''0123456789'' [0, 1, 2, 3, 4, 5, 6, 7, 8, 9]) c of
                   Some d \<Rightarrow> d | None \<Rightarrow> 0)"

definition digitsVal :: "string \<Rightarrow> nat" where
  "digitsVal ds = foldl (\<lambda>a c. 10 * a + digitVal c) 0 ds"

text \<open>
  \<open>parseFloat\<close> on the strings the formatter passes to it, which consist of digits,
  dots and minus signs only: an optional minus sign, then the longest prefix of the
  form digits, digits "." digits or "." digits. \<open>None\<close> is \<open>NaN\<close>. The value is
  the exact decimal value, where JavaScript has the nearest double.
\<close>

definition parseUnsigned :: "string \<Rightarrow> rat option" where
  "parseUnsigned s =
     (let ip = takeWhile isDigit s;
          rest = dropWhile isDigit s;
          fp = (case rest of
                  [] \<Rightarrow> []
                | c # rest' \<Rightarrow> if c = CHR ''.'' then takeWhile isDigit rest' else [])
      in if ip = [] \<and> fp = [] then None
         else Some (of_nat (digitsVal ip) + of_nat (digitsVal fp) / 10 ^ length fp))"

definition parseFloat :: "string \<Rightarrow> rat option" where
  "parseFloat s =
     (case s of
        [] \<Rightarrow> None
      | c # cs \<Rightarrow>
          if c = CHR ''-'' then map_option uminus (parseUnsigned cs)
          else parseUnsigned (c # cs))"

text \<open>
  \<open>formatFinancialNumber\<close>. The test \<open>Math.abs(numericValue) < 0.01\<close> is made on
  the exact decimal value; it differs from the test on doubles only for literals
  within \<open>10\<^sup>-\<^sup>1\<^sup>8\<close> of 0.01.
\<close>

definition formatFinancialNumber :: "JsValue \<Rightarrow> FormattedNumber" where
  "formatFinancialNumber value =
     (if value = JNull \<or> value = JUndefined \<or> value = JString [] \<or>
         includesStr (toLowerCase (toStr value)) ''n/a'' \<or>
         includesStr (toLowerCase (toStr value)) ''data not provided'' \<or>
         toLowerCase (toStr value) = ''n/m'' \<or>
         toLowerCase (toStr value) = ''nm''
      then \<lparr> text = ''N/A'', isNegative = False, isPositive = False,
             isZero = False, isNA = True \<rparr>
      else
        let strValue = trim (toStr value) in
        if strValue = ''-'' \<or> strValue = emDash \<or> strValue = enDash
        then \<lparr> text = emDash, isNegative = False, isPositive = False,
               isZero = True, isNA = False \<rparr>
        else
          let isNegative =
                ((startsWith strValue ''-'' \<and> hasDigit strValue) \<or>
                 (startsWith strValue ''('' \<and> endsWith strValue '')'') \<or>
                 includesStr strValue ''($'' \<or>
                 includesStr strValue ''-('');
              isPositive = (startsWith strValue ''+'' \<and> hasDigit strValue);
              numericStr = numericChars strValue;
              numericValue = parseFloat numericStr;
              isZero = (case numericValue of
                          None \<Rightarrow> False
                        | Some v \<Rightarrow> \<bar>v\<bar> < 1 / 100)
          in
          if isZero \<and> \<not> includesStr strValue ''%''
          then \<lparr> text = emDash, isNegative = False, isPositive = False,
                 isZero = True, isNA = False \<rparr>
          else
            let text =
                  (if isNegative \<and> startsWith strValue ''-'' \<and> \<not> startsWith strValue ''(''
                   then
                     if includesStr strValue ''$''
                     then replaceFirst ''-$'' ''($'' strValue @ '')''
                     else if includesStr strValue ''%''
                     then ''('' @ replaceFirst ''-'' [] strValue @ '')''
                     else ''('' @ replaceFirst ''-'' [] strValue @ '')''
                   else strValue)
            in \<lparr> text = text, isNegative = isNegative, isPositive = isPositive,
                 isZero = isZero, isNA = False \<rparr>)"

text \<open>
  The parts of \<open>formatFinancialNumber\<close> by name, for the proofs: the test of the
  first \<open>if\<close>, the negative test, the zero test, the rewriting of a leading minus
  sign, and the function after the first \<open>if\<close> as a function of \<open>strValue\<close>.
\<close>

definition naTest :: "JsValue \<Rightarrow> bool" where
  "naTest value =
     (value = JNull \<or> value = JUndefined \<or> value = JString [] \<or>
      includesStr (toLowerCase (toStr value)) ''n/a'' \<or>
      includesStr (toLowerCase (toStr value)) ''data not provided'' \<or>
      toLowerCase (toStr value) = ''n/m'' \<or>
      toLowerCase (toStr value) = ''nm'')"

definition negTest :: "string \<Rightarrow> bool" where
  "negTest strValue =
     ((startsWith strValue ''-'' \<and> hasDigit strValue) \<or>
      (startsWith strValue ''('' \<and> endsWith strValue '')'') \<or>
      includesStr strValue ''($'' \<or>
      includesStr strValue ''-('')"

definition zeroNum :: "string \<Rightarrow> bool" where
  "zeroNum numericStr =
     (case parseFloat numericStr of None \<Rightarrow> False | Some v \<Rightarrow> \<bar>v\<bar> < 1 / 100)"

definition reformat :: "string \<Rightarrow> string" where
  "reformat strValue =
     (if includesStr strValue ''$''
      then replaceFirst ''-$'' ''($'' strValue @ '')''
      else ''('' @ replaceFirst ''-'' [] strValue @ '')'')"

definition zeroResult :: FormattedNumber where
  "zeroResult = \<lparr> text = emDash, isNegative = False, isPositive = False,
                   isZero = True, isNA = False \<rparr>"

definition naResult :: FormattedNumber where
  "naResult = \<lparr> text = ''N/A'', isNegative = False, isPositive = False,
                 isZero = False, isNA = True \<rparr>"

definition formatTrimmed :: "string \<Rightarrow> FormattedNumber" where
  "formatTrimmed strValue =
     (if strValue = ''-'' \<or> strValue = emDash \<or> strValue = enDash then zeroResult
      else if zeroNum (numericChars strValue) \<and> \<not> includesStr strValue ''%''
      then zeroResult
      else \<lparr> text = (if negTest strValue \<and> startsWith strValue ''-'' \<and>
                        \<not> startsWith strValue ''(''
                      then reformat strValue else strValue),
             isNegative = negTest strValue,
             isPositive = (startsWith strValue ''+'' \<and> hasDigit strValue),
             isZero = zeroNum (numericChars strValue),
             isNA = False \<rparr>)"

text \<open>
  The Not-Applicable rule in the words of the specification, for comparison with
  the first \<open>if\<close> of \<open>formatFinancialNumber\<close>: after trimming, the value is empty,
  or equals "n/a", "n/m" or "nm" without regard to case, or contains the phrase
  "data not provided".
\<close>

definition spec_isNotApplicable :: "string \<Rightarrow> bool" where
  "spec_isNotApplicable s =
     (let t = toLowerCase (trim s) in
        t = [] \<or> t = ''n/a'' \<or> t = ''n/m'' \<or> t = ''nm'' \<or>
        includesStr t ''data not provided'')"

section \<open>Facts about the string operations\<close>

lemma startsWith_prefix: "startsWith s p = prefix p s"
  by (auto simp: startsWith_def prefix_def) (metis append_eq_conv_conj)

lemma includesStr_sublist: "includesStr s p = sublist p s"
proof (induction s)
  case Nil
  then show ?case by simp
next
  case (Cons c cs)
  then show ?case by (simp add: startsWith_prefix sublist_Cons_right)
qed

lemma includesStr_self: "includesStr s s"
  by (simp add: includesStr_sublist)

lemma includesStr_trans: "includesStr s p \<Longrightarrow> includesStr p q \<Longrightarrow> includesStr s q"
  unfolding includesStr_sublist by (rule sublist_order.order_trans)

lemma sublist_dropWhile: "sublist (dropWhile P s) s"
  by (metis suffix_dropWhile suffix_imp_sublist)

lemma sublist_trim: "sublist (trim s) s"
proof -
  have "prefix (rev (dropWhile isSpace (rev u))) u" for u
    by (metis rev_rev_ident suffix_dropWhile suffix_to_prefix)
  then have "sublist (trim s) (dropWhile isSpace s)"
    unfolding trim_def by (rule prefix_imp_sublist)
  then show ?thesis
    using sublist_dropWhile sublist_order.order_trans by blast
qed

lemma sublist_toLowerCase: "sublist a b \<Longrightarrow> sublist (toLowerCase a) (toLowerCase b)"
proof -
  assume "sublist a b"
  then obtain ps ss where "b = ps @ a @ ss" by (auto simp: sublist_def)
  then have "toLowerCase b = toLowerCase ps @ toLowerCase a @ toLowerCase ss"
    by (simp add: toLowerCase_def)
  then show ?thesis by (metis sublist_appendI)
qed

lemma trim_id:
  assumes "s \<noteq> []" "\<not> isSpace (hd s)" "\<not> isSpace (last s)"
  shows "trim s = s"
proof -
  have "dropWhile isSpace s = s"
    using assms by (cases s) auto
  moreover have "dropWhile isSpace (rev s) = rev s"
    using assms by (cases "rev s") (auto simp: last_rev hd_rev)
  ultimately show ?thesis by (simp add: trim_def)
qed

lemma trim_ends:
  assumes "trim s \<noteq> []"
  shows "\<not> isSpace (hd (trim s)) \<and> \<not> isSpace (last (trim s))"
proof -
  let ?d = "dropWhile isSpace s"
  let ?e = "dropWhile isSpace (rev ?d)"
  have ne: "?e \<noteq> []" using assms by (simp add: trim_def)
  then have l: "\<not> isSpace (hd ?e)" by (rule hd_dropWhile)
  have "?d \<noteq> []" using ne by (metis dropWhile.simps(1) rev_is_Nil_conv)
  then have h: "\<not> isSpace (hd ?d)" by (rule hd_dropWhile)
  have "last (trim s) = hd ?e"
    using ne by (simp add: trim_def last_rev)
  moreover have "hd (trim s) = hd ?d"
  proof -
    have "suffix ?e (rev ?d)" by (rule suffix_dropWhile)
    then have "prefix (rev ?e) ?d" by (metis rev_rev_ident suffix_to_prefix)
    then show ?thesis using ne
      by (metis hd_append2 prefix_def rev_is_Nil_conv trim_def)
  qed
  ultimately show ?thesis using l h by simp
qed

lemma trim_trim: "trim (trim s) = trim s"
proof (cases "trim s = []")
  case True
  have "trim [] = []" by (simp add: trim_def)
  then show ?thesis using True by simp
next
  case False
  then show ?thesis using trim_ends [OF False] by (intro trim_id) auto
qed


lemmas eval_str = toLowerCase_def lower_char_def trim_def isSpace_def startsWith_def
  endsWith_def

section \<open>Total rows and subtotal rows\<close>

text \<open>
  C7 (as amended). The library check \<open>isRowTotal\<close> is true exactly when the
  trimmed, lower-cased label starts with "total" or "= ", contains "net income",
  "gross profit", "ebitda" or "ebit", or is "net cash". The renderer's check
  \<open>isTotalRow\<close> differs: it takes "ebitda" and "ebit" as exact matches of the whole
  label. So \<open>isTotalRow\<close> implies \<open>isRowTotal\<close>, and the two agree on every label
  whose trimmed, lower-cased form does not contain "ebit".
\<close>

theorem isRowTotal_isTotalRow:
  "(isRowTotal label \<longleftrightarrow>
      (let lower = trim (toLowerCase label) in
         prefix ''total'' lower \<or> prefix ''= '' lower \<or>
         sublist ''net income'' lower \<or> sublist ''gross profit'' lower \<or>
         sublist ''ebitda'' lower \<or> sublist ''ebit'' lower \<or>
         lower = ''net cash''))
   \<and> (isTotalRow label \<longleftrightarrow>
      (let lower = trim (toLowerCase label) in
         prefix ''total'' lower \<or> prefix ''= '' lower \<or>
         sublist ''net income'' lower \<or> sublist ''gross profit'' lower \<or>
         lower = ''ebitda'' \<or> lower = ''ebit'' \<or>
         lower = ''net cash''))
   \<and> (isTotalRow label \<longrightarrow> isRowTotal label)
   \<and> (\<not> sublist ''ebit'' (trim (toLowerCase label)) \<longrightarrow>
         isTotalRow label = isRowTotal label)"
proof -
  have ebitda: "sublist ''ebit'' ''ebitda''"
    by (simp add: includesStr_sublist [symmetric] startsWith_def)
  have sub: "sublist ''ebitda'' s \<Longrightarrow> sublist ''ebit'' s" for s
    using ebitda sublist_order.order_trans by blast
  show ?thesis
    unfolding isRowTotal_def isTotalRow_def Let_def startsWith_prefix includesStr_sublist
    using sub ebitda by auto
qed

theorem isRowTotal_isTotalRow_witness:
  "isTotalRow ''  EBITDA '' \<and> isRowTotal ''  EBITDA ''
   \<and> \<not> sublist ''ebit'' (trim (toLowerCase ''Total Expenses''))
   \<and> isTotalRow ''Total Expenses'' \<and> isRowTotal ''Total Expenses''"
proof -
  have a: "isTotalRow ''  EBITDA ''"
    by (simp add: isTotalRow_def eval_str)
  have b: "\<not> sublist ''ebit'' (trim (toLowerCase ''Total Expenses''))"
    by (simp add: includesStr_sublist [symmetric] eval_str)
  have c: "isTotalRow ''Total Expenses''"
    by (simp add: isTotalRow_def eval_str)
  from a b c isRowTotal_isTotalRow [of "''  EBITDA ''"]
    isRowTotal_isTotalRow [of "''Total Expenses''"]
  show ?thesis by blast
qed

theorem isTotalRow_counterexample:
  "isRowTotal ''Adjusted EBITDA''
   \<and> sublist ''ebitda'' (trim (toLowerCase ''Adjusted EBITDA''))
   \<and> \<not> isTotalRow ''Adjusted EBITDA''"
  by (simp add: isRowTotal_def isTotalRow_def includesStr_sublist [symmetric] eval_str)

text \<open>
  C8 (as amended). \<open>isRowSubtotal\<close> is true exactly when the trimmed, lower-cased
  label starts with "subtotal" or "sub-total". The two checks are independent:
  a label is both a subtotal row and a total row exactly when it starts with
  "subtotal" or "sub-total" and contains "net income", "gross profit" or "ebit";
  for every other label at most one of the two checks is true.
\<close>

theorem isRowSubtotal_isRowTotal:
  "(isRowSubtotal label \<longleftrightarrow>
      prefix ''subtotal'' (trim (toLowerCase label)) \<or>
      prefix ''sub-total'' (trim (toLowerCase label)))
   \<and> (isRowSubtotal label \<and> isRowTotal label \<longleftrightarrow>
        isRowSubtotal label \<and>
        (sublist ''net income'' (trim (toLowerCase label)) \<or>
         sublist ''gross profit'' (trim (toLowerCase label)) \<or>
         sublist ''ebit'' (trim (toLowerCase label))))
   \<and> (\<not> sublist ''net income'' (trim (toLowerCase label)) \<and>
        \<not> sublist ''gross profit'' (trim (toLowerCase label)) \<and>
        \<not> sublist ''ebit'' (trim (toLowerCase label)) \<longrightarrow>
        \<not> (isRowSubtotal label \<and> isRowTotal label))"
proof -
  have ebitda: "sublist ''ebit'' ''ebitda''"
    by (simp add: includesStr_sublist [symmetric] startsWith_def)
  have sub: "sublist ''ebitda'' s \<Longrightarrow> sublist ''ebit'' s" for s
    using ebitda sublist_order.order_trans by blast
  have excl: "\<not> (prefix ''total'' s \<or> prefix ''= '' s \<or> s = ''net cash'')"
    if "prefix ''subtotal'' s \<or> prefix ''sub-total'' s" for s
    using that by (auto simp: prefix_def)
  show ?thesis
    unfolding isRowTotal_def isRowSubtotal_def Let_def startsWith_prefix includesStr_sublist
    using sub excl by blast
qed

theorem isRowSubtotal_isRowTotal_witness:
  "\<not> sublist ''net income'' (trim (toLowerCase ''Subtotal COGS'')) \<and>
   \<not> sublist ''gross profit'' (trim (toLowerCase ''Subtotal COGS'')) \<and>
   \<not> sublist ''ebit'' (trim (toLowerCase ''Subtotal COGS'')) \<and>
   isRowSubtotal ''Subtotal COGS'' \<and> \<not> isRowTotal ''Subtotal COGS''"
proof -
  have a: "\<not> sublist ''net income'' (trim (toLowerCase ''Subtotal COGS''))"
    by (simp add: includesStr_sublist [symmetric] eval_str)
  have b: "\<not> sublist ''gross profit'' (trim (toLowerCase ''Subtotal COGS''))"
    by (simp add: includesStr_sublist [symmetric] eval_str)
  have c: "\<not> sublist ''ebit'' (trim (toLowerCase ''Subtotal COGS''))"
    by (simp add: includesStr_sublist [symmetric] eval_str)
  have d: "isRowSubtotal ''Subtotal COGS''"
    by (simp add: isRowSubtotal_def eval_str)
  from a b c d isRowSubtotal_isRowTotal [of "''Subtotal COGS''"]
  show ?thesis by blast
qed

theorem isRowSubtotal_isRowTotal_counterexample:
  "isRowSubtotal ''Subtotal EBITDA'' \<and> isRowTotal ''Subtotal EBITDA''"
  by (simp add: isRowSubtotal_def isRowTotal_def eval_str)

section \<open>Properties of the special-block extractor\<close>

text \<open>
  C5. A section with one "Key Takeaways" block of three bullets and one
  "Questions for Management" block of two bullets should give three takeaways and
  two questions. With plain heading lines it does. With the headings written in
  bold, which the patterns accept, the heading line itself is taken as an item:
  the items are looked for in the whole text of the match and not in the captured
  list, so four takeaways and three questions are returned. The items of several
  takeaways blocks of one section are returned together, in document order.
\<close>

theorem parseSpecialSections_bold_heading:
  "parseSpecialSections exampleBold =
     \<lparr> SpecialSections.content = [],
       keyTakeaways = [''*Key Takeaways**'', ''Revenue up'', ''Margin down'', ''Cash stable''],
       questions = [''Questions for Management**'', ''Why?'', ''When?''],
       executiveInsights = [] \<rparr>
   \<and> parseSpecialSections examplePlainBlocks =
     \<lparr> SpecialSections.content = ''Narrative.'',
       keyTakeaways = [''Revenue up'', ''Margin down'', ''Cash stable''],
       questions = [''Why?'', ''When?''],
       executiveInsights = [] \<rparr>
   \<and> parseSpecialSections exampleTwoBlocks =
     \<lparr> SpecialSections.content = ''Text between.'',
       keyTakeaways = [''One'', ''Two'', ''Three''],
       questions = [],
       executiveInsights = [] \<rparr>"
proof (intro conjI)
  show "parseSpecialSections exampleBold =
     \<lparr> SpecialSections.content = [],
       keyTakeaways = [''*Key Takeaways**'', ''Revenue up'', ''Margin down'', ''Cash stable''],
       questions = [''Questions for Management**'', ''Why?'', ''When?''],
       executiveInsights = [] \<rparr>"
    by code_simp
  show "parseSpecialSections examplePlainBlocks =
     \<lparr> SpecialSections.content = ''Narrative.'',
       keyTakeaways = [''Revenue up'', ''Margin down'', ''Cash stable''],
       questions = [''Why?'', ''When?''],
       executiveInsights = [] \<rparr>"
    by code_simp
  show "parseSpecialSections exampleTwoBlocks =
     \<lparr> SpecialSections.content = ''Text between.'',
       keyTakeaways = [''One'', ''Two'', ''Three''],
       questions = [],
       executiveInsights = [] \<rparr>"
    by code_simp
qed

section \<open>Properties of the section parser\<close>

lemma splitH2_heading:
  assumes "t \<noteq> []" "\<not> isSpace (hd t)"
  shows "splitH2 True acc (''## '' @ t @ rest) = rev acc # splitH2 False [] (t @ rest)"
proof -
  obtain c cs where t: "t = c # cs" using assms(1) by (cases t) auto
  have ns: "\<not> isSpace c" using assms(2) by (simp add: t)
  have sp: "isSpace CHR '' ''" by (simp add: isSpace_def)
  have nl: "\<not> isLineTerminator CHR '' ''" by (simp add: isLineTerminator_def)
  have m: "h2Match (''## '' @ t @ rest)"
    by (simp add: h2Match_def startsWith_def sp)
  show ?thesis
    using m ns sp nl by (simp add: t)
qed

lemma splitH2_title:
  assumes "list_all (\<lambda>c. \<not> isLineTerminator c) t"
  shows "splitH2 False acc (t @ rest) = splitH2 False (rev t @ acc) rest"
  using assms by (induction t arbitrary: acc) auto

lemma h2Match_append:
  assumes "h2Match (v @ rest)" "v \<noteq> []" "last v = CHR 0x0A"
  shows "h2Match v"
proof -
  have nl: "CHR 0x0A \<noteq> CHR ''#''" by simp
  obtain a v1 where v: "v = a # v1" using assms(2) by (cases v) auto
  have a: "a = CHR ''#''" using assms(1) by (simp add: h2Match_def startsWith_def v)
  have "v1 \<noteq> []" using assms(3) a nl by (auto simp: v)
  then obtain b v2 where v1: "v1 = b # v2" by (cases v1) auto
  have b: "b = CHR ''#''" using assms(1) by (simp add: h2Match_def startsWith_def v v1)
  have "v2 \<noteq> []" using assms(3) b nl by (auto simp: v v1)
  then obtain d v3 where v2: "v2 = d # v3" by (cases v2) auto
  show ?thesis using assms(1) by (simp add: h2Match_def startsWith_def v v1 v2)
qed

lemma splitH2_body:
  assumes "noH2 ls u" "u = [] \<or> last u = CHR 0x0A"
  shows "splitH2 ls acc (u @ rest) = splitH2 (if u = [] then ls else True) (rev u @ acc) rest"
  using assms
proof (induction u arbitrary: ls acc)
  case Nil
  then show ?case by simp
next
  case (Cons c cs)
  have nm: "\<not> (ls \<and> h2Match ((c # cs) @ rest))"
    using Cons.prems h2Match_append [of "c # cs" rest] by auto
  have step: "splitH2 ls acc ((c # cs) @ rest) = splitH2 (isLineTerminator c) (c # acc) (cs @ rest)"
    using nm by auto
  show ?case
  proof (cases "cs = []")
    case True
    then have "c = CHR 0x0A" using Cons.prems by simp
    then show ?thesis using step True by (simp add: isLineTerminator_def)
  next
    case False
    then have "splitH2 (isLineTerminator c) (c # acc) (cs @ rest)
        = splitH2 True (rev cs @ c # acc) rest"
      using Cons.IH [of "isLineTerminator c" "c # acc"] Cons.prems by simp
    then show ?thesis using step by simp
  qed
qed

lemma splitH2_sections:
  assumes "list_all (\<lambda>tb. titleOk (fst tb) \<and> bodyOk (snd tb)) secs"
  shows "splitH2 True acc (concat (map renderSection secs))
         = (if secs = [] then [rev acc]
            else rev acc # map (\<lambda>tb. fst tb @ [CHR 0x0A] @ snd tb) secs)"
  using assms
proof (induction secs arbitrary: acc)
  case Nil
  then show ?case by simp
next
  case (Cons tb secs)
  obtain t b where tb: "tb = (t, b)" by (cases tb)
  let ?rest = "concat (map renderSection secs)"
  have t: "t \<noteq> []" "\<not> isSpace (hd t)" "list_all (\<lambda>c. \<not> isLineTerminator c) t"
    and b: "noH2 True b" "b = [] \<or> last b = CHR 0x0A"
    using Cons.prems by (simp_all add: tb titleOk_def bodyOk_def)
  have "splitH2 True acc (concat (map renderSection (tb # secs)))
        = splitH2 True acc (''## '' @ t @ ([CHR 0x0A] @ b @ ?rest))"
    by (simp add: tb renderSection_def)
  also have "\<dots> = rev acc # splitH2 False [] (t @ ([CHR 0x0A] @ b @ ?rest))"
    using t(1) t(2) by (rule splitH2_heading)
  also have "splitH2 False [] (t @ ([CHR 0x0A] @ b @ ?rest))
        = splitH2 False (rev t @ []) ([CHR 0x0A] @ b @ ?rest)"
    using t(3) by (rule splitH2_title)
  also have "\<dots> = splitH2 True (CHR 0x0A # rev t) (b @ ?rest)"
    by (simp add: h2Match_def startsWith_def isLineTerminator_def)
  also have "\<dots> = splitH2 True (rev b @ CHR 0x0A # rev t) ?rest"
    using splitH2_body [OF b, of "CHR 0x0A # rev t" ?rest] by simp
  also have "\<dots> = (if secs = [] then [t @ [CHR 0x0A] @ b]
            else (t @ [CHR 0x0A] @ b) # map (\<lambda>tb. fst tb @ [CHR 0x0A] @ snd tb) secs)"
    using Cons.IH [of "rev b @ CHR 0x0A # rev t"] Cons.prems by simp
  finally show ?case by (simp add: tb)
qed

lemma splitH2_document:
  assumes "bodyOk pre" "list_all (\<lambda>tb. titleOk (fst tb) \<and> bodyOk (snd tb)) secs"
  shows "splitH2 True [] (document pre secs)
         = pre # map (\<lambda>tb. fst tb @ [CHR 0x0A] @ snd tb) secs"
proof -
  have "splitH2 True [] (pre @ concat (map renderSection secs))
        = splitH2 True (rev pre @ []) (concat (map renderSection secs))"
    using splitH2_body [of True pre "[]"] assms(1) by (simp add: bodyOk_def)
  then show ?thesis
    using splitH2_sections [OF assms(2), of "rev pre"] by (simp add: document_def)
qed


lemma titleOk_trim: "titleOk t \<Longrightarrow> trim t = t"
  by (simp add: titleOk_def trim_id)

lemma titleOk_no_newline: "titleOk t \<Longrightarrow> CHR 0x0A \<notin> set t"
  by (auto simp: titleOk_def list_all_iff isLineTerminator_def)

lemma indexOfNewline_render:
  assumes "titleOk t"
  shows "indexOfNewline (t @ [CHR 0x0A] @ b) = int (length t)"
proof -
  have "takeWhile (\<lambda>c. c \<noteq> CHR 0x0A) (t @ [CHR 0x0A] @ b) = t"
    using titleOk_no_newline [OF assms] by (induction t) auto
  then show ?thesis by (simp add: indexOfNewline_def)
qed

lemma partTitle_render: "titleOk t \<Longrightarrow> partTitle (t @ [CHR 0x0A] @ b) = t"
  using indexOfNewline_render [of t b]
  by (auto simp: partTitle_def Let_def titleOk_trim titleOk_def)

lemma partContent_render: "titleOk t \<Longrightarrow> partContent (t @ [CHR 0x0A] @ b) = trim b"
  using indexOfNewline_render [of t b]
  by (auto simp: partContent_def Let_def titleOk_def)

lemma sectionOfPart_render:
  assumes "titleOk t"
  shows "sectionOfPart (t @ [CHR 0x0A] @ b) =
     map_option
       (\<lambda>def. \<lparr> key = SectionDefinition.key def,
                 ReportSection.name = natToString (SectionDefinition.order def) @ ''. '' @
                        removeAtStart (seqs [many1 digit, chr CHR ''.'', Star space]) t,
                 order = SectionDefinition.order def,
                 content = ''## '' @ t @ [CHR 0x0A, CHR 0x0A] @ trim b \<rparr>)
       (find (\<lambda>def. testRe (pattern def) t) sectionDefinitions)"
  unfolding sectionOfPart_def Let_def partTitle_render [OF assms] partContent_render [OF assms]
  by (simp split: option.splits)

lemma canonical_titleOk: "list_all titleOk canonicalHeadings"
  by code_simp

lemma canonical_find:
  "list_all2
     (\<lambda>d h. map_option (\<lambda>def. (SectionDefinition.key def, SectionDefinition.order def))
               (find (\<lambda>def. testRe (pattern def) h) sectionDefinitions)
             = Some (SectionDefinition.key d, SectionDefinition.order d))
     sectionDefinitions canonicalHeadings"
  by code_simp

lemma canonical_name:
  "list_all2
     (\<lambda>d h. natToString (SectionDefinition.order d) @ ''. '' @
            removeAtStart (seqs [many1 digit, chr CHR ''.'', Star space]) h = h)
     sectionDefinitions canonicalHeadings"
  by code_simp

lemma canonical_orders: "map SectionDefinition.order sectionDefinitions = [1, 2, 3, 4, 5, 6, 7, 8, 9]"
  by (simp add: sectionDefinitions_def)


lemma filter_key_singleton:
  "distinct (map f l) \<Longrightarrow> k \<in> set l \<Longrightarrow> filter (\<lambda>x. f k = f x) l = [k]"
proof (induction l)
  case Nil
  then show ?case by simp
next
  case (Cons a l)
  show ?case
  proof (cases "k = a")
    case True
    have "filter (\<lambda>x. f a = f x) l = []"
      using Cons.prems(1) by (auto simp: filter_empty_conv)
    then show ?thesis using True by simp
  next
    case False
    then have "k \<in> set l" using Cons.prems by simp
    moreover have "f a \<notin> f ` set l" using Cons.prems(1) by simp
    then have "f k \<noteq> f a" using \<open>k \<in> set l\<close> by (metis imageI)
    ultimately show ?thesis using Cons by simp
  qed
qed

lemma sort_key_unique:
  assumes "mset xs = mset ys" "sorted (map f ys)" "distinct (map f ys)"
  shows "sort_key f xs = ys"
proof (rule properties_for_sort_key)
  show "mset ys = mset xs" using assms(1) by simp
  show "sorted (map f ys)" by (rule assms(2))
  fix k assume k: "k \<in> set ys"
  have "mset (map f xs) = mset (map f ys)" using assms(1) by simp
  then have dx: "distinct (map f xs)"
    using assms(3) mset_eq_imp_distinct_iff by blast
  have "k \<in> set xs" using k assms(1) mset_eq_setD by blast
  then show "filter (\<lambda>x. f k = f x) ys = filter (\<lambda>x. f k = f x) xs"
    using filter_key_singleton [OF dx] filter_key_singleton [OF assms(3) k] by simp
qed

lemma map_filter_map_Some:
  "(\<And>x. x \<in> set xs \<Longrightarrow> f (h x) = Some (g x)) \<Longrightarrow> List.map_filter f (map h xs) = map g xs"
  by (induction xs) (simp_all add: List.map_filter_simps)

lemma canonical_sectionOfPart:
  "list_all2
     (\<lambda>d h. \<forall>b. sectionOfPart (h @ [CHR 0x0A] @ b) = Some (canonicalSection d (h, b)))
     sectionDefinitions canonicalHeadings"
proof -
  have len: "length sectionDefinitions = length canonicalHeadings"
    by (simp add: sectionDefinitions_def canonicalHeadings_def)
  show ?thesis
  proof (rule list_all2_all_nthI [OF len])
    fix i assume i: "i < length sectionDefinitions"
    let ?d = "sectionDefinitions ! i" and ?h = "canonicalHeadings ! i"
    have ok: "titleOk ?h"
      using canonical_titleOk [unfolded list_all_length] i len by auto
    have f: "map_option (\<lambda>def. (SectionDefinition.key def, SectionDefinition.order def))
               (find (\<lambda>def. testRe (pattern def) ?h) sectionDefinitions)
             = Some (SectionDefinition.key ?d, SectionDefinition.order ?d)"
      using list_all2_nthD [OF canonical_find i] .
    have n: "natToString (SectionDefinition.order ?d) @ ''. '' @
            removeAtStart (seqs [many1 digit, chr CHR ''.'', Star space]) ?h = ?h"
      using list_all2_nthD [OF canonical_name i] .
    from f obtain d' where d': "find (\<lambda>def. testRe (pattern def) ?h) sectionDefinitions = Some d'"
      "SectionDefinition.key d' = SectionDefinition.key ?d"
      "SectionDefinition.order d' = SectionDefinition.order ?d"
      by auto
    show "\<forall>b. sectionOfPart (?h @ [CHR 0x0A] @ b) = Some (canonicalSection ?d (?h, b))"
      unfolding sectionOfPart_render [OF ok] d' canonicalSection_def
      using n by (simp add: d')
  qed
qed


lemma canonical_lengths:
  "length sectionDefinitions = length canonicalHeadings" "length canonicalHeadings = 9"
  by (simp_all add: sectionDefinitions_def canonicalHeadings_def)

lemma canonical_part_nth:
  assumes "i < length canonicalHeadings" "length bodies = length canonicalHeadings"
  shows "sectionOfPart (fst (zip canonicalHeadings bodies ! i) @ [CHR 0x0A]
                         @ snd (zip canonicalHeadings bodies ! i))
         = Some (canonicalSection (sectionDefinitions ! i) (zip canonicalHeadings bodies ! i))"
proof -
  have z: "zip canonicalHeadings bodies ! i = (canonicalHeadings ! i, bodies ! i)"
    using assms by simp
  have "i < length sectionDefinitions" using assms(1) canonical_lengths(1) by simp
  from list_all2_nthD [OF canonical_sectionOfPart this]
  show ?thesis unfolding z fst_conv snd_conv by blast
qed

lemma canonical_orders_map2:
  assumes "length bodies = length canonicalHeadings"
  shows "map ReportSection.order
           (map2 canonicalSection sectionDefinitions (zip canonicalHeadings bodies))
         = [1, 2, 3, 4, 5, 6, 7, 8, 9]"
proof -
  have "map ReportSection.order
           (map2 canonicalSection sectionDefinitions (zip canonicalHeadings bodies))
        = map SectionDefinition.order sectionDefinitions"
  proof (rule nth_equalityI)
    show "length (map ReportSection.order
           (map2 canonicalSection sectionDefinitions (zip canonicalHeadings bodies)))
        = length (map SectionDefinition.order sectionDefinitions)"
      using assms canonical_lengths(1) by simp
    fix i assume "i < length (map ReportSection.order
           (map2 canonicalSection sectionDefinitions (zip canonicalHeadings bodies)))"
    then have "i < length sectionDefinitions" "i < length (zip canonicalHeadings bodies)"
      by simp_all
    then show "map ReportSection.order
           (map2 canonicalSection sectionDefinitions (zip canonicalHeadings bodies)) ! i
        = map SectionDefinition.order sectionDefinitions ! i"
      by (simp add: canonicalSection_def)
  qed
  then show ?thesis unfolding canonical_orders .
qed

lemma parse_canonical:
  assumes pre: "bodyOk pre"
    and bodies: "list_all bodyOk bodies"
    and len: "length bodies = length canonicalHeadings"
    and perm: "mset secs = mset (zip canonicalHeadings bodies)"
  shows "parseReportSections (document pre secs)
         = map2 canonicalSection sectionDefinitions (zip canonicalHeadings bodies)"
proof -
  let ?cs = "zip canonicalHeadings bodies"
  let ?ys = "map2 canonicalSection sectionDefinitions ?cs"
  let ?part = "\<lambda>tb. fst tb @ [CHR 0x0A] @ snd tb"
  define G where "G = (\<lambda>tb. the (sectionOfPart (?part tb)))"
  have lcs: "length ?cs = length canonicalHeadings" using len by simp
  have ok_cs: "titleOk (fst tb) \<and> bodyOk (snd tb)" if "tb \<in> set ?cs" for tb
  proof -
    obtain t b where tb: "tb = (t, b)" by (cases tb)
    from that have "t \<in> set canonicalHeadings" "b \<in> set bodies"
      unfolding tb by (auto dest: set_zip_leftD set_zip_rightD)
    then show ?thesis
      using canonical_titleOk bodies unfolding tb list_all_iff by simp
  qed
  have some_cs: "sectionOfPart (?part tb) = Some (G tb)" if "tb \<in> set ?cs" for tb
  proof -
    from that obtain i where i: "i < length ?cs" "?cs ! i = tb"
      unfolding in_set_conv_nth by blast
    then have "i < length canonicalHeadings" using lcs by simp
    from canonical_part_nth [OF this len] show ?thesis
      unfolding i(2) G_def by simp
  qed
  have set_eq: "set secs = set ?cs" using perm by (rule mset_eq_setD)
  have ok_secs: "list_all (\<lambda>tb. titleOk (fst tb) \<and> bodyOk (snd tb)) secs"
    unfolding list_all_iff set_eq using ok_cs by blast
  have "tl (splitH2 True [] (document pre secs)) = map ?part secs"
    unfolding splitH2_document [OF pre ok_secs] by simp
  then have "matchedSections (document pre secs) = List.map_filter sectionOfPart (map ?part secs)"
    unfolding matchedSections_def by simp
  also have "\<dots> = map G secs"
  proof (rule map_filter_map_Some)
    fix x assume "x \<in> set secs"
    then have "x \<in> set ?cs" unfolding set_eq .
    then show "sectionOfPart (?part x) = Some (G x)" by (rule some_cs)
  qed
  finally have matched: "matchedSections (document pre secs) = map G secs" .
  have G_cs: "map G ?cs = ?ys"
  proof (rule nth_equalityI)
    show "length (map G ?cs) = length ?ys" using len canonical_lengths(1) by simp
    fix i assume "i < length (map G ?cs)"
    then have i: "i < length canonicalHeadings" "i < length ?cs" "i < length sectionDefinitions"
      using lcs canonical_lengths(1) by simp_all
    have "G (?cs ! i) = canonicalSection (sectionDefinitions ! i) (?cs ! i)"
      unfolding G_def canonical_part_nth [OF i(1) len] by simp
    then show "map G ?cs ! i = ?ys ! i"
      using i(2) i(3) by simp
  qed
  have "mset (map G secs) = mset (map G ?cs)"
    using perm by simp
  then have m: "mset (map G secs) = mset ?ys"
    unfolding G_cs .
  have orders: "map ReportSection.order ?ys = [1, 2, 3, 4, 5, 6, 7, 8, 9]"
    using len by (rule canonical_orders_map2)
  have so: "sorted (map ReportSection.order ?ys)" unfolding orders by simp
  have di: "distinct (map ReportSection.order ?ys)" unfolding orders by simp
  have "sort_key ReportSection.order (map G secs) = ?ys"
    using m so di by (rule sort_key_unique)
  moreover have "length ?ys \<noteq> 0"
    using len canonical_lengths by simp
  ultimately show ?thesis
    unfolding parseReportSections_def Let_def matched by simp
qed


text \<open>
  C3 (as amended). For every document made of a well-formed preamble and the nine
  canonical headings as "## " heading lines, in any order, each followed by a
  well-formed body, \<open>parseReportSections\<close> returns exactly nine sections in
  canonical order 1 to 9; the section of a heading has the key and order of its
  definition, the heading as its name, and as content a re-created "## " heading
  line of the title, an empty line, and the trimmed text between the heading line
  and the next heading line.
\<close>

theorem parseReportSections_canonical:
  assumes "bodyOk pre"
    and "list_all bodyOk bodies"
    and "length bodies = length canonicalHeadings"
    and "mset secs = mset (zip canonicalHeadings bodies)"
  shows "parseReportSections (document pre secs)
         = map2 canonicalSection sectionDefinitions (zip canonicalHeadings bodies)
       \<and> map ReportSection.order (parseReportSections (document pre secs))
         = [1, 2, 3, 4, 5, 6, 7, 8, 9]"
  using parse_canonical [OF assms] canonical_orders_map2 [OF assms(3)] by simp

lemma example_ok:
  "bodyOk (''Intro'' @ [CHR 0x0A])" "list_all bodyOk exampleBodies"
  "length exampleBodies = length canonicalHeadings"
  by code_simp+

lemma example_perm:
  "mset (rev (zip canonicalHeadings exampleBodies)) = mset (zip canonicalHeadings exampleBodies)"
  by simp

lemma example_first:
  "hd (map2 canonicalSection sectionDefinitions (zip canonicalHeadings exampleBodies))
   = \<lparr> key = ''executive_snapshot'', ReportSection.name = ''1. Executive Snapshot'', order = 1,
       content = ''## 1. Executive Snapshot'' @ [CHR 0x0A, CHR 0x0A] @ ''alpha'' \<rparr>"
  by (simp add: sectionDefinitions_def canonicalHeadings_def exampleBodies_def
      canonicalSection_def trim_def isSpace_def)

theorem parseReportSections_canonical_witness:
  "bodyOk (''Intro'' @ [CHR 0x0A])
   \<and> list_all bodyOk exampleBodies
   \<and> length exampleBodies = length canonicalHeadings
   \<and> mset (rev (zip canonicalHeadings exampleBodies))
       = mset (zip canonicalHeadings exampleBodies)
   \<and> parseReportSections exampleScrambled
       = map2 canonicalSection sectionDefinitions (zip canonicalHeadings exampleBodies)
   \<and> map ReportSection.order (parseReportSections exampleScrambled)
       = [1, 2, 3, 4, 5, 6, 7, 8, 9]"
  using parseReportSections_canonical [OF example_ok example_perm] example_ok example_perm
  unfolding exampleScrambled_def by blast

theorem parseReportSections_canonical_counterexample:
  "exampleScrambled = document (''Intro'' @ [CHR 0x0A]) (rev (zip canonicalHeadings exampleBodies))
   \<and> length (parseReportSections exampleScrambled) = 9
   \<and> content (hd (parseReportSections exampleScrambled))
       = ''## 1. Executive Snapshot'' @ [CHR 0x0A, CHR 0x0A] @ ''alpha''
   \<and> content (hd (parseReportSections exampleScrambled)) \<noteq> ''alpha''
   \<and> content (hd (parseReportSections exampleScrambled)) \<noteq> ''alpha'' @ [CHR 0x0A]"
proof -
  have p: "parseReportSections exampleScrambled
       = map2 canonicalSection sectionDefinitions (zip canonicalHeadings exampleBodies)"
    unfolding exampleScrambled_def by (rule parse_canonical [OF example_ok example_perm])
  have l: "length (parseReportSections exampleScrambled) = 9"
    unfolding p using example_ok(3) canonical_lengths by simp
  have c: "content (hd (parseReportSections exampleScrambled))
       = ''## 1. Executive Snapshot'' @ [CHR 0x0A, CHR 0x0A] @ ''alpha''"
    unfolding p example_first by simp
  show ?thesis using l c by (simp add: exampleScrambled_def)
qed


























section \<open>Properties of the sheet extractor\<close>

lemma extractStep_candidate:
  "extractStep wb B r t =
     (case candidate wb t of
        None \<Rightarrow> r
      | Some c \<Rightarrow>
          if totalTokens r + estimatedTokens c > B then r
          else r \<lparr> sheets := sheets r @ [c],
                   totalTokens := totalTokens r + estimatedTokens c \<rparr>)"
  by (auto simp: extractStep_def candidate_def Let_def split: option.splits)

lemma candidate_nonneg: "candidate wb t = Some c \<Longrightarrow> 0 \<le> estimatedTokens c"
  by (auto simp: candidate_def estimateTokens_def split: option.splits if_splits)

lemma candidates_Cons:
  "candidates wb (t # ts) =
     (case candidate wb t of None \<Rightarrow> candidates wb ts | Some c \<Rightarrow> c # candidates wb ts)"
  by (simp add: candidates_def List.map_filter_simps split: option.splits)

lemma candidates_Nil: "candidates wb [] = []"
  by (simp add: candidates_def List.map_filter_simps)

lemma candidates_append: "candidates wb (ts1 @ ts2) = candidates wb ts1 @ candidates wb ts2"
  by (simp add: candidates_def List.map_filter_def)

lemma loop_shape:
  "\<exists>ys. sheets (foldl (extractStep wb B) r ts) = sheets r @ ys
        \<and> subseq ys (candidates wb ts)
        \<and> totalTokens (foldl (extractStep wb B) r ts)
            = totalTokens r + sum_list (map estimatedTokens ys)
        \<and> missingRequiredSheets (foldl (extractStep wb B) r ts) = missingRequiredSheets r
        \<and> allSheetNames (foldl (extractStep wb B) r ts) = allSheetNames r"
proof (induction ts arbitrary: r)
  case Nil
  then show ?case by (simp add: candidates_Nil)
next
  case (Cons t ts)
  show ?case
  proof (cases "candidate wb t")
    case None
    then have "extractStep wb B r t = r" by (simp add: extractStep_candidate)
    with Cons.IH [of r] None show ?thesis by (simp add: candidates_Cons)
  next
    case (Some c)
    show ?thesis
    proof (cases "totalTokens r + estimatedTokens c > B")
      case True
      then have "extractStep wb B r t = r" using Some by (simp add: extractStep_candidate)
      with Cons.IH [of r] Some show ?thesis
        by (auto simp: candidates_Cons)
    next
      case False
      define r' where "r' = r \<lparr> sheets := sheets r @ [c],
                   totalTokens := totalTokens r + estimatedTokens c \<rparr>"
      have step: "extractStep wb B r t = r'"
        using Some False by (simp add: extractStep_candidate r'_def)
      from Cons.IH [of r'] obtain ys where
        ys: "sheets (foldl (extractStep wb B) r' ts) = sheets r' @ ys"
            "subseq ys (candidates wb ts)"
            "totalTokens (foldl (extractStep wb B) r' ts)
               = totalTokens r' + sum_list (map estimatedTokens ys)"
            "missingRequiredSheets (foldl (extractStep wb B) r' ts) = missingRequiredSheets r'"
            "allSheetNames (foldl (extractStep wb B) r' ts) = allSheetNames r'"
        by blast
      have "sheets (foldl (extractStep wb B) r (t # ts)) = sheets r @ (c # ys)"
        using ys(1) step by (simp add: r'_def)
      moreover have "subseq (c # ys) (candidates wb (t # ts))"
        using ys(2) Some by (simp add: candidates_Cons)
      moreover have "totalTokens (foldl (extractStep wb B) r (t # ts))
            = totalTokens r + sum_list (map estimatedTokens (c # ys))"
        using ys(3) step by (simp add: r'_def)
      moreover have "missingRequiredSheets (foldl (extractStep wb B) r (t # ts)) = missingRequiredSheets r"
        using ys(4) step by (simp add: r'_def)
      moreover have "allSheetNames (foldl (extractStep wb B) r (t # ts)) = allSheetNames r"
        using ys(5) step by (simp add: r'_def)
      ultimately show ?thesis by blast
    qed
  qed
qed

lemma loop_bound:
  "totalTokens r \<le> B \<Longrightarrow> totalTokens (foldl (extractStep wb B) r ts) \<le> B"
proof (induction ts arbitrary: r)
  case Nil
  then show ?case by simp
next
  case (Cons t ts)
  have "totalTokens (extractStep wb B r t) \<le> B"
    using Cons.prems by (simp add: extractStep_candidate split: option.splits)
  then show ?case using Cons.IH by simp
qed

lemma candidates_sum_nonneg: "0 \<le> sum_list (map estimatedTokens (candidates wb ts))"
proof (induction ts)
  case Nil
  then show ?case by (simp add: candidates_Nil)
next
  case (Cons t ts)
  then show ?case
    using candidate_nonneg [of wb t]
    by (auto simp: candidates_Cons split: option.splits)
qed

lemma loop_fit:
  "totalTokens r + sum_list (map estimatedTokens (candidates wb ts)) \<le> B \<Longrightarrow>
   sheets (foldl (extractStep wb B) r ts) = sheets r @ candidates wb ts \<and>
   totalTokens (foldl (extractStep wb B) r ts)
     = totalTokens r + sum_list (map estimatedTokens (candidates wb ts))"
proof (induction ts arbitrary: r)
  case Nil
  then show ?case by (simp add: candidates_Nil)
next
  case (Cons t ts)
  show ?case
  proof (cases "candidate wb t")
    case None
    then have "extractStep wb B r t = r" by (simp add: extractStep_candidate)
    with Cons.IH [of r] Cons.prems None show ?thesis by (simp add: candidates_Cons)
  next
    case (Some c)
    define r' where "r' = r \<lparr> sheets := sheets r @ [c],
                   totalTokens := totalTokens r + estimatedTokens c \<rparr>"
    have sum: "totalTokens r + estimatedTokens c
                 + sum_list (map estimatedTokens (candidates wb ts)) \<le> B"
      using Cons.prems Some by (simp add: candidates_Cons)
    then have "totalTokens r + estimatedTokens c \<le> B"
      using candidates_sum_nonneg [of wb ts] by linarith
    then have step: "extractStep wb B r t = r'"
      using Some by (simp add: extractStep_candidate r'_def)
    have "totalTokens r' + sum_list (map estimatedTokens (candidates wb ts)) \<le> B"
      using sum by (simp add: r'_def)
    from Cons.IH [OF this] step Some show ?thesis
      by (simp add: r'_def candidates_Cons)
  qed
qed

lemma requiredStep_fields:
  "sheets (requiredStep r q) = sheets r \<and> totalTokens (requiredStep r q) = totalTokens r"
  by (simp add: requiredStep_def Let_def)

lemma extract_sheets:
  "sheets (extractCoreSheets wb B) =
     sheets (foldl (extractStep wb B)
       \<lparr> sheets = [], totalTokens = 0, missingRequiredSheets = [],
         allSheetNames = SheetNames wb \<rparr> CORE_SHEETS)"
  by (simp add: extractCoreSheets_def Let_def requiredStep_fields)

lemma extract_total:
  "totalTokens (extractCoreSheets wb B) =
     totalTokens (foldl (extractStep wb B)
       \<lparr> sheets = [], totalTokens = 0, missingRequiredSheets = [],
         allSheetNames = SheetNames wb \<rparr> CORE_SHEETS)"
  by (simp add: extractCoreSheets_def Let_def requiredStep_fields)

lemma extract_prefix:
  assumes split: "CORE_SHEETS = ts1 @ ts2"
    and fit: "sum_list (map estimatedTokens (candidates wb ts1)) \<le> B"
  shows "prefix (candidates wb ts1) (sheets (extractCoreSheets wb B))"
proof -
  let ?r0 = "\<lparr> sheets = [], totalTokens = 0, missingRequiredSheets = [],
         allSheetNames = SheetNames wb \<rparr>"
  let ?r1 = "foldl (extractStep wb B) ?r0 ts1"
  have "sheets ?r1 = candidates wb ts1"
    using loop_fit [of ?r0 wb ts1 B] fit by simp
  moreover obtain ys where "sheets (foldl (extractStep wb B) ?r1 ts2) = sheets ?r1 @ ys"
    using loop_shape [of wb B ?r1 ts2] by blast
  ultimately show ?thesis
    by (simp add: extract_sheets split)
qed

text \<open>
  C2 (as amended). For all budgets \<open>0 \<le> B1 < B2\<close> and every workbook, each run
  admits a subsequence, in priority order, of the candidate tabs found in the
  workbook; \<open>totalTokens\<close> is the sum of the admitted costs and is at most the
  budget. Admission is not monotone in the budget once a tab has been skipped, but
  every leading run of candidates whose costs together fit \<open>B1\<close> is admitted at the
  head of both results; if all candidates together fit \<open>B1\<close>, both runs admit
  exactly the candidates.
\<close>

theorem extractCoreSheets_budget:
  assumes "0 \<le> B1" and "B1 < B2"
  shows "totalTokens (extractCoreSheets wb B1) \<le> B1
       \<and> totalTokens (extractCoreSheets wb B2) \<le> B2
       \<and> totalTokens (extractCoreSheets wb B1)
           = sum_list (map estimatedTokens (sheets (extractCoreSheets wb B1)))
       \<and> totalTokens (extractCoreSheets wb B2)
           = sum_list (map estimatedTokens (sheets (extractCoreSheets wb B2)))
       \<and> subseq (sheets (extractCoreSheets wb B1)) (candidates wb CORE_SHEETS)
       \<and> subseq (sheets (extractCoreSheets wb B2)) (candidates wb CORE_SHEETS)
       \<and> (\<forall>ts1 ts2. CORE_SHEETS = ts1 @ ts2 \<and>
             sum_list (map estimatedTokens (candidates wb ts1)) \<le> B1 \<longrightarrow>
             prefix (candidates wb ts1) (sheets (extractCoreSheets wb B1)) \<and>
             prefix (candidates wb ts1) (sheets (extractCoreSheets wb B2)))
       \<and> (sum_list (map estimatedTokens (candidates wb CORE_SHEETS)) \<le> B1 \<longrightarrow>
             sheets (extractCoreSheets wb B1) = candidates wb CORE_SHEETS \<and>
             sheets (extractCoreSheets wb B2) = candidates wb CORE_SHEETS)"
proof -
  let ?r0 = "\<lparr> sheets = [], totalTokens = 0, missingRequiredSheets = [],
         allSheetNames = SheetNames wb \<rparr>"
  have b1: "totalTokens (extractCoreSheets wb B1) \<le> B1"
    using loop_bound [of ?r0 B1 wb CORE_SHEETS] assms by (simp add: extract_total)
  have b2: "totalTokens (extractCoreSheets wb B2) \<le> B2"
    using loop_bound [of ?r0 B2 wb CORE_SHEETS] assms by (simp add: extract_total)
  have shape: "totalTokens (extractCoreSheets wb B)
           = sum_list (map estimatedTokens (sheets (extractCoreSheets wb B)))
        \<and> subseq (sheets (extractCoreSheets wb B)) (candidates wb CORE_SHEETS)" for B
    using loop_shape [of wb B ?r0 CORE_SHEETS]
    by (auto simp: extract_total extract_sheets)
  have pre: "prefix (candidates wb ts1) (sheets (extractCoreSheets wb B1)) \<and>
             prefix (candidates wb ts1) (sheets (extractCoreSheets wb B2))"
    if "CORE_SHEETS = ts1 @ ts2"
      and "sum_list (map estimatedTokens (candidates wb ts1)) \<le> B1" for ts1 ts2
    using extract_prefix [of ts1 ts2 wb B1] extract_prefix [of ts1 ts2 wb B2] that assms
    by simp
  have all: "sheets (extractCoreSheets wb B1) = candidates wb CORE_SHEETS \<and>
             sheets (extractCoreSheets wb B2) = candidates wb CORE_SHEETS"
    if "sum_list (map estimatedTokens (candidates wb CORE_SHEETS)) \<le> B1"
    using loop_fit [of ?r0 wb CORE_SHEETS B1] loop_fit [of ?r0 wb CORE_SHEETS B2] that assms
    by (simp add: extract_sheets)
  from b1 b2 shape pre all show ?thesis by blast
qed


lemma extract_wb_three_10:
  "extractCoreSheets wb_three 10 =
     \<lparr> sheets = [\<lparr> name = ''PL - RAW'', csv = ''Revenue,100,200,300,'', estimatedTokens = 5 \<rparr>,
                 \<lparr> name = ''BS - RAW'', csv = ''Revenue,100,200,300,'', estimatedTokens = 5 \<rparr>],
       totalTokens = 10, missingRequiredSheets = [],
       allSheetNames = [''PL - RAW'', ''Dynamic PL'', ''BS - RAW''] \<rparr>"
  by code_simp

lemma extract_wb_three_11:
  "extractCoreSheets wb_three 11 =
     \<lparr> sheets = [\<lparr> name = ''PL - RAW'', csv = ''Revenue,100,200,300,'', estimatedTokens = 5 \<rparr>,
                 \<lparr> name = ''Dynamic PL'', csv = ''Revenue,100,200,300,400,'',
                   estimatedTokens = 6 \<rparr>],
       totalTokens = 11, missingRequiredSheets = [],
       allSheetNames = [''PL - RAW'', ''Dynamic PL'', ''BS - RAW''] \<rparr>"
  by code_simp

lemma extract_wb_aliases:
  "extractCoreSheets wb_aliases 150000 =
     \<lparr> sheets = [\<lparr> name = ''Income Statement'', csv = ''Revenue,100'', estimatedTokens = 3 \<rparr>,
                 \<lparr> name = ''Balance Sheet'', csv = ''Cash,50'', estimatedTokens = 2 \<rparr>],
       totalTokens = 5, missingRequiredSheets = [''PL - RAW'', ''BS - RAW''],
       allSheetNames = [''Income Statement'', ''Balance Sheet''] \<rparr>"
  by code_simp

lemma extract_wb_income_only:
  "extractCoreSheets wb_income_only 150000 =
     \<lparr> sheets = [\<lparr> name = ''Income Statement'', csv = ''Revenue,100'', estimatedTokens = 3 \<rparr>],
       totalTokens = 3, missingRequiredSheets = [''PL - RAW'', ''BS - RAW''],
       allSheetNames = [''Income Statement''] \<rparr>"
  by code_simp

lemma extract_wb_pl_only:
  "extractCoreSheets wb_pl_only 150000 =
     \<lparr> sheets = [\<lparr> name = ''PL - RAW'', csv = ''Revenue,100'', estimatedTokens = 3 \<rparr>],
       totalTokens = 3, missingRequiredSheets = [],
       allSheetNames = [''PL - RAW''] \<rparr>"
  by code_simp

theorem extractCoreSheets_budget_witness:
  "(0::int) \<le> 10 \<and> (10::int) < 11
   \<and> totalTokens (extractCoreSheets wb_three 10) \<le> 10
   \<and> totalTokens (extractCoreSheets wb_three 11) \<le> 11
   \<and> CORE_SHEETS = [''PL - RAW''] @ tl CORE_SHEETS
   \<and> sum_list (map estimatedTokens (candidates wb_three [''PL - RAW''])) \<le> 10
   \<and> prefix (candidates wb_three [''PL - RAW'']) (sheets (extractCoreSheets wb_three 10))
   \<and> prefix (candidates wb_three [''PL - RAW'']) (sheets (extractCoreSheets wb_three 11))
   \<and> sum_list (map estimatedTokens (candidates wb_three CORE_SHEETS)) \<le> 16
   \<and> sheets (extractCoreSheets wb_three 16) = candidates wb_three CORE_SHEETS
   \<and> sheets (extractCoreSheets wb_three 17) = candidates wb_three CORE_SHEETS"
proof -
  have split: "CORE_SHEETS = [''PL - RAW''] @ tl CORE_SHEETS"
    by (simp add: CORE_SHEETS_def)
  have fit1: "sum_list (map estimatedTokens (candidates wb_three [''PL - RAW''])) \<le> 10"
    by code_simp
  have fit: "sum_list (map estimatedTokens (candidates wb_three CORE_SHEETS)) \<le> 16"
    by code_simp
  have a: "(0::int) \<le> 10" "(10::int) < 11" "(0::int) \<le> 16" "(16::int) < 17"
    by simp_all
  note w1 = extractCoreSheets_budget [OF a(1) a(2), of wb_three]
  note w2 = extractCoreSheets_budget [OF a(3) a(4), of wb_three]
  have p: "prefix (candidates wb_three [''PL - RAW'']) (sheets (extractCoreSheets wb_three 10))
     \<and> prefix (candidates wb_three [''PL - RAW'']) (sheets (extractCoreSheets wb_three 11))"
    using w1 split fit1 by blast
  have q: "sheets (extractCoreSheets wb_three 16) = candidates wb_three CORE_SHEETS \<and>
     sheets (extractCoreSheets wb_three 17) = candidates wb_three CORE_SHEETS"
    using w2 fit by blast
  have t: "totalTokens (extractCoreSheets wb_three 10) \<le> 10
     \<and> totalTokens (extractCoreSheets wb_three 11) \<le> 11"
    using w1 by blast
  show ?thesis
    using a(1) a(2) t split fit1 p fit q by (intro conjI) blast+
qed

theorem extractCoreSheets_budget_counterexample:
  "(10::int) < 11
   \<and> ''BS - RAW'' \<in> set (map name (sheets (extractCoreSheets wb_three 10)))
   \<and> ''BS - RAW'' \<notin> set (map name (sheets (extractCoreSheets wb_three 11)))
   \<and> \<not> set (map name (sheets (extractCoreSheets wb_three 10)))
         \<subseteq> set (map name (sheets (extractCoreSheets wb_three 11)))"
  unfolding extract_wb_three_10 extract_wb_three_11 by simp

text \<open>
  C1. The required-sheets check should report exactly those of the two
  primary-statement tabs, "PL - RAW" and "BS - RAW", that were not admitted. The
  check never reads the name it is checking: for each of the two it asks whether
  any admitted tab name contains "pl" or "bs". So a workbook whose two primary
  tabs are found through the aliases "Income Statement" and "Balance Sheet", and
  admitted, reports both canonical names missing; a workbook with only
  "Income Statement" reports both missing, not the balance sheet alone; and a
  workbook with only "PL - RAW" reports nothing missing although it has no
  balance-sheet tab. Admitted sheets carry the workbook's own tab names.
\<close>

theorem extractCoreSheets_missingRequired:
  "findSheetByName wb_aliases ''PL - RAW'' = Some ''Income Statement''
   \<and> findSheetByName wb_aliases ''BS - RAW'' = Some ''Balance Sheet''
   \<and> map name (sheets (extractCoreSheets wb_aliases 150000))
       = [''Income Statement'', ''Balance Sheet'']
   \<and> missingRequiredSheets (extractCoreSheets wb_aliases 150000) = [''PL - RAW'', ''BS - RAW'']
   \<and> findSheetByName wb_income_only ''PL - RAW'' = Some ''Income Statement''
   \<and> findSheetByName wb_income_only ''BS - RAW'' = None
   \<and> map name (sheets (extractCoreSheets wb_income_only 150000)) = [''Income Statement'']
   \<and> missingRequiredSheets (extractCoreSheets wb_income_only 150000)
       = [''PL - RAW'', ''BS - RAW'']
   \<and> findSheetByName wb_pl_only ''BS - RAW'' = None
   \<and> map name (sheets (extractCoreSheets wb_pl_only 150000)) = [''PL - RAW'']
   \<and> missingRequiredSheets (extractCoreSheets wb_pl_only 150000) = []"
proof (intro conjI)
  show "findSheetByName wb_aliases ''PL - RAW'' = Some ''Income Statement''"
    by code_simp
  show "findSheetByName wb_aliases ''BS - RAW'' = Some ''Balance Sheet''"
    by code_simp
  show "map name (sheets (extractCoreSheets wb_aliases 150000))
       = [''Income Statement'', ''Balance Sheet'']"
    unfolding extract_wb_aliases by simp
  show "missingRequiredSheets (extractCoreSheets wb_aliases 150000) = [''PL - RAW'', ''BS - RAW'']"
    unfolding extract_wb_aliases by simp
  show "findSheetByName wb_income_only ''PL - RAW'' = Some ''Income Statement''"
    by code_simp
  show "findSheetByName wb_income_only ''BS - RAW'' = None"
    by code_simp
  show "map name (sheets (extractCoreSheets wb_income_only 150000)) = [''Income Statement'']"
    unfolding extract_wb_income_only by simp
  show "missingRequiredSheets (extractCoreSheets wb_income_only 150000)
       = [''PL - RAW'', ''BS - RAW'']"
    unfolding extract_wb_income_only by simp
  show "findSheetByName wb_pl_only ''BS - RAW'' = None"
    by code_simp
  show "map name (sheets (extractCoreSheets wb_pl_only 150000)) = [''PL - RAW'']"
    unfolding extract_wb_pl_only by simp
  show "missingRequiredSheets (extractCoreSheets wb_pl_only 150000) = []"
    unfolding extract_wb_pl_only by simp
qed

section \<open>Properties of the number formatter\<close>

lemma formatFinancialNumber_parts:
  "formatFinancialNumber v =
     (if naTest v then naResult else formatTrimmed (trim (toStr v)))"
  unfolding formatFinancialNumber_def naTest_def naResult_def formatTrimmed_def
      zeroResult_def negTest_def zeroNum_def reformat_def Let_def if_cancel
  by (rule refl)

lemma naTest_trim:
  assumes "naTest (JString (trim x))" "\<not> naTest (JString x)"
  shows "trim x \<noteq> ''N/A''"
proof
  assume eq: "trim x = ''N/A''"
  have "sublist (toLowerCase ''N/A'') (toLowerCase x)"
    using sublist_trim [of x] eq sublist_toLowerCase by metis
  moreover have "toLowerCase ''N/A'' = ''n/a''" by (simp add: eval_str)
  ultimately have "includesStr (toLowerCase x) ''n/a''"
    by (simp add: includesStr_sublist)
  then show False using assms(2) by (simp add: naTest_def)
qed

lemma format_NA_text: "naTest v \<Longrightarrow> formatFinancialNumber v = naResult"
  by (simp add: formatFinancialNumber_parts)

lemma format_of_NA: "formatFinancialNumber (JString ''N/A'') = naResult"
  by (simp add: formatFinancialNumber_parts naTest_def eval_str)

lemma format_of_emDash: "formatFinancialNumber (JString emDash) = zeroResult"
  by (simp add: formatFinancialNumber_parts naTest_def formatTrimmed_def emDash_def eval_str)


lemma parseFloat_minus:
  "\<not> prefix ''-'' ns \<Longrightarrow> parseFloat (CHR ''-'' # ns) = map_option uminus (parseFloat ns)"
  by (cases ns) (auto simp: parseFloat_def parseUnsigned_def)

lemma zeroNum_minus: "\<not> prefix ''-'' ns \<Longrightarrow> zeroNum (CHR ''-'' # ns) = zeroNum ns"
  by (simp add: zeroNum_def parseFloat_minus split: option.splits)

lemma numericChars_paren: "numericChars (CHR ''('' # r @ '')'') = numericChars r"
  by (simp add: numericChars_def isDigit_def)

lemma numericChars_minus: "numericChars (CHR ''-'' # r) = CHR ''-'' # numericChars r"
  by (simp add: numericChars_def)

lemma replaceFirst_same_or_sublist:
  "replaceFirst p q s = s \<or> sublist q (replaceFirst p q s)"
proof (induction s)
  case Nil
  then show ?case by simp
next
  case (Cons c cs)
  show ?case
  proof (cases "startsWith (c # cs) p")
    case True
    then have "replaceFirst p q (c # cs) = q @ drop (length p) (c # cs)" by simp
    then show ?thesis by (metis prefix_imp_sublist prefixI)
  next
    case False
    then have eq: "replaceFirst p q (c # cs) = c # replaceFirst p q cs" by simp
    from Cons.IH show ?thesis
    proof
      assume "replaceFirst p q cs = cs"
      then show ?thesis using eq by simp
    next
      assume "sublist q (replaceFirst p q cs)"
      then show ?thesis using eq by (simp add: sublist_Cons_right)
    qed
  qed
qed

lemma startsWith_length: "startsWith s p \<Longrightarrow> length p \<le> length s"
proof -
  assume "startsWith s p"
  then have "length (take (length p) s) = length p" by (simp add: startsWith_def)
  then show ?thesis by simp
qed

lemma length_replaceFirst:
  "length q = length p \<Longrightarrow> p \<noteq> [] \<Longrightarrow> length (replaceFirst p q s) = length s"
proof (induction s)
  case Nil
  then show ?case by simp
next
  case (Cons c cs)
  show ?case
  proof (cases "startsWith (c # cs) p")
    case True
    then have "length p \<le> length (c # cs)" by (rule startsWith_length)
    then show ?thesis using True Cons.prems by simp
  next
    case False
    then show ?thesis using Cons by simp
  qed
qed


lemma hasDigit_append: "hasDigit s \<Longrightarrow> hasDigit (s @ z)"
  by (auto simp: hasDigit_def list_ex_iff)

lemma includesStr_append: "includesStr s p \<Longrightarrow> includesStr (s @ z) p"
  unfolding includesStr_sublist by (metis sublist_append)

lemma includesStr_Cons: "includesStr s p \<Longrightarrow> includesStr (c # s) p"
  by simp

lemma reformat_shape:
  assumes s: "s = CHR ''-'' # r" and neg: "negTest s"
  shows "reformat s = ''('' @ r @ '')'' \<or>
         (startsWith (reformat s) ''-'' \<and> negTest (reformat s) \<and>
          reformat s \<noteq> [] \<and> last (reformat s) = CHR '')'')"
proof (cases "includesStr s ''$''")
  case False
  then show ?thesis by (simp add: reformat_def s startsWith_def)
next
  case True
  show ?thesis
  proof (cases "startsWith s ''-$''")
    case True
    then obtain b where b: "r = CHR ''$'' # b"
      by (cases r) (auto simp: s startsWith_def)
    have "reformat s = ''('' @ r @ '')''"
      using \<open>includesStr s ''$''\<close> by (simp add: reformat_def s b startsWith_def)
    then show ?thesis by simp
  next
    case False
    let ?r' = "replaceFirst ''-$'' ''($'' r"
    have rf: "replaceFirst ''-$'' ''($'' s = CHR ''-'' # ?r'"
      using False by (simp add: s)
    then have t: "reformat s = CHR ''-'' # ?r' @ '')''"
      using True by (simp add: reformat_def)
    have sneg: "hasDigit s \<or> includesStr s ''($'' \<or> includesStr s ''-(''"
      using neg by (auto simp: negTest_def s startsWith_def)
    have "negTest (reformat s)"
      using replaceFirst_same_or_sublist [of "''-$''" "''($''" r]
    proof
      assume "?r' = r"
      then have eq: "reformat s = s @ '')''" using t s by simp
      have st: "startsWith (s @ '')'') ''-''" by (simp add: s startsWith_def)
      have "hasDigit (s @ '')'') \<or> includesStr (s @ '')'') ''($'' \<or>
            includesStr (s @ '')'') ''-(''"
        using sneg hasDigit_append includesStr_append by blast
      then show ?thesis
        unfolding eq negTest_def using st by blast
    next
      assume "sublist ''($'' ?r'"
      then have "includesStr (CHR ''-'' # ?r' @ '')'') ''($''"
        using includesStr_append includesStr_Cons includesStr_sublist by blast
      then show ?thesis by (simp add: t negTest_def)
    qed
    then show ?thesis by (simp add: t startsWith_def)
  qed
qed

lemma length_reformat:
  assumes "startsWith t ''-''"
  shows "length (reformat t) = Suc (length t)"
proof (cases "includesStr t ''$''")
  case True
  then show ?thesis by (simp add: reformat_def length_replaceFirst)
next
  case False
  obtain u where "t = CHR ''-'' # u"
    using assms by (cases t) (auto simp: startsWith_def)
  then show ?thesis using False by (simp add: reformat_def startsWith_def)
qed

lemma emDash_neq: "hd t = CHR ''-'' \<or> hd t = CHR ''('' \<Longrightarrow> t \<noteq> emDash \<and> t \<noteq> enDash \<and> t \<noteq> ''N/A''"
  by (auto simp: emDash_def enDash_def)

lemma format_minus_changes:
  assumes st: "startsWith t ''-''" and neg: "negTest t" and l: "last t = CHR '')''"
  shows "text (formatFinancialNumber (JString t)) \<noteq> t"
proof -
  obtain u where t: "t = CHR ''-'' # u"
    using st by (cases t) (auto simp: startsWith_def)
  have hd: "hd t = CHR ''-''" by (simp add: t)
  show ?thesis
  proof (cases "naTest (JString t)")
    case True
    then show ?thesis using emDash_neq [of t] hd
      by (auto simp: formatFinancialNumber_parts naResult_def)
  next
    case False
    have tr: "trim t = t"
    proof (rule trim_id)
      show "t \<noteq> []" by (simp add: t)
      show "\<not> isSpace (hd t)" by (simp add: hd isSpace_def)
      show "\<not> isSpace (last t)" by (simp add: l isSpace_def)
    qed
    have nd: "t \<noteq> ''-''" using l by (auto simp: t)
    have "text (formatTrimmed t) \<noteq> t"
      using emDash_neq [of t] hd length_reformat [OF st] st neg nd
      by (auto simp: formatTrimmed_def zeroResult_def startsWith_def)
    then show ?thesis using False tr by (simp add: formatFinancialNumber_parts)
  qed
qed

lemma format_paren:
  assumes t: "t = ''('' @ r @ '')''"
    and fp: "text (formatFinancialNumber (JString t)) = t"
  shows "isNegative (formatFinancialNumber (JString t)) \<and>
         \<not> isNA (formatFinancialNumber (JString t)) \<and>
         isZero (formatFinancialNumber (JString t)) = zeroNum (numericChars r)"
proof -
  have hd: "hd t = CHR ''(''" by (simp add: t)
  have na: "\<not> naTest (JString t)"
    using fp emDash_neq [of t] hd by (auto simp: formatFinancialNumber_parts naResult_def)
  have tr: "trim t = t"
    by (rule trim_id) (simp_all add: t isSpace_def)
  have f: "formatFinancialNumber (JString t) = formatTrimmed t"
    using na tr by (simp add: formatFinancialNumber_parts)
  have neg: "negTest t"
    by (simp add: negTest_def t startsWith_def endsWith_def)
  have nz: "formatTrimmed t \<noteq> zeroResult"
    using fp emDash_neq [of t] hd unfolding f by (auto simp: zeroResult_def)
  then have "formatTrimmed t = \<lparr> text = t, isNegative = True,
       isPositive = (startsWith t ''+'' \<and> hasDigit t),
       isZero = zeroNum (numericChars t), isNA = False \<rparr>"
    using neg by (auto simp: formatTrimmed_def t startsWith_def)
  then show ?thesis
    unfolding f by (simp add: t numericChars_paren)
qed


lemma formatTrimmed_cases:
  "formatTrimmed s = zeroResult \<or>
   formatTrimmed s =
     \<lparr> text = (if negTest s \<and> startsWith s ''-'' \<and> \<not> startsWith s ''(''
               then reformat s else s),
       isNegative = negTest s,
       isPositive = (startsWith s ''+'' \<and> hasDigit s),
       isZero = zeroNum (numericChars s),
       isNA = False \<rparr>"
  by (simp add: formatTrimmed_def)

text \<open>
  C9 (as amended). Call a display text canonical when formatting it again leaves
  it unchanged. For every value whose display text is canonical, classifying the
  display text again gives the same \<open>isNegative\<close> and \<open>isNA\<close> flags, and
  the same \<open>isZero\<close> flag unless the digits, dots and minus signs of the trimmed
  input begin with two minus signs.
\<close>

theorem formatFinancialNumber_reclassify:
  assumes fp: "text (formatFinancialNumber (JString (text (formatFinancialNumber v))))
               = text (formatFinancialNumber v)"
  shows "isNegative (formatFinancialNumber (JString (text (formatFinancialNumber v))))
           = isNegative (formatFinancialNumber v)
       \<and> isNA (formatFinancialNumber (JString (text (formatFinancialNumber v))))
           = isNA (formatFinancialNumber v)
       \<and> (\<not> prefix ''--'' (numericChars (trim (toStr v))) \<longrightarrow>
            isZero (formatFinancialNumber (JString (text (formatFinancialNumber v))))
              = isZero (formatFinancialNumber v))"
proof (cases "naTest v")
  case True
  then have "formatFinancialNumber v = naResult" by (rule format_NA_text)
  then show ?thesis by (simp add: naResult_def format_of_NA [unfolded naResult_def])
next
  case False
  define s where "s = trim (toStr v)"
  obtain x where v: "v = JString x"
    using False by (cases v) (auto simp: naTest_def)
  have fv: "formatFinancialNumber v = formatTrimmed s"
    using False by (simp add: formatFinancialNumber_parts s_def)
  from formatTrimmed_cases [of s] show ?thesis
  proof
    assume "formatTrimmed s = zeroResult"
    then show ?thesis
      unfolding fv by (simp add: zeroResult_def format_of_emDash [unfolded zeroResult_def])
  next
    assume gen: "formatTrimmed s =
     \<lparr> text = (if negTest s \<and> startsWith s ''-'' \<and> \<not> startsWith s ''(''
               then reformat s else s),
       isNegative = negTest s,
       isPositive = (startsWith s ''+'' \<and> hasDigit s),
       isZero = zeroNum (numericChars s),
       isNA = False \<rparr>"
    show ?thesis
    proof (cases "negTest s \<and> startsWith s ''-'' \<and> \<not> startsWith s ''(''")
      case True
      then obtain r where r: "s = CHR ''-'' # r"
        by (cases s) (auto simp: startsWith_def)
      have t: "text (formatFinancialNumber v) = reformat s"
        unfolding fv gen using True by simp
      have fp': "text (formatFinancialNumber (JString (reformat s))) = reformat s"
        using fp unfolding t .
      from reformat_shape [OF r] True
      have "reformat s = ''('' @ r @ '')''"
        using format_minus_changes [of "reformat s"] fp' by blast
      from format_paren [OF this fp']
      have p: "isNegative (formatFinancialNumber (JString (reformat s)))"
        "\<not> isNA (formatFinancialNumber (JString (reformat s)))"
        "isZero (formatFinancialNumber (JString (reformat s))) = zeroNum (numericChars r)"
        by simp_all
      have z: "zeroNum (numericChars s) = zeroNum (numericChars r)"
        if "\<not> prefix ''--'' (numericChars s)"
      proof -
        have "\<not> prefix ''-'' (numericChars r)"
          using that by (auto simp: r numericChars_minus prefix_def)
        then show ?thesis by (simp add: r numericChars_minus zeroNum_minus)
      qed
      show ?thesis
        unfolding t unfolding fv gen using p True z by (simp add: s_def)
    next
      case False
      then have t: "text (formatFinancialNumber v) = s"
        unfolding fv gen by auto
      have fp': "text (formatFinancialNumber (JString s)) = s"
        using fp unfolding t .
      have na: "\<not> naTest (JString s)"
      proof
        assume n: "naTest (JString s)"
        then have "s = ''N/A''"
          using fp' by (simp add: formatFinancialNumber_parts naResult_def)
        moreover have "trim x \<noteq> ''N/A''"
          using n \<open>\<not> naTest v\<close> unfolding s_def v by (intro naTest_trim) simp_all
        ultimately show False by (simp add: s_def v)
      qed
      have "formatFinancialNumber (JString s) = formatTrimmed s"
        using na by (simp add: formatFinancialNumber_parts s_def trim_trim)
      then show ?thesis
        using t [unfolded fv] by (simp add: fv)
    qed
  qed
qed


theorem formatFinancialNumber_reclassify_witness:
  "text (formatFinancialNumber (JString ''-$5.8K'')) = ''($5.8K)''
   \<and> text (formatFinancialNumber (JString ''($5.8K)'')) = ''($5.8K)''
   \<and> \<not> prefix ''--'' (numericChars (trim (toStr (JString ''-$5.8K''))))
   \<and> isNegative (formatFinancialNumber (JString ''($5.8K)''))
       = isNegative (formatFinancialNumber (JString ''-$5.8K''))
   \<and> isNA (formatFinancialNumber (JString ''($5.8K)''))
       = isNA (formatFinancialNumber (JString ''-$5.8K''))
   \<and> isZero (formatFinancialNumber (JString ''($5.8K)''))
       = isZero (formatFinancialNumber (JString ''-$5.8K''))"
proof -
  have a: "text (formatFinancialNumber (JString ''-$5.8K'')) = ''($5.8K)''"
    by code_simp
  have b: "text (formatFinancialNumber (JString ''($5.8K)'')) = ''($5.8K)''"
    by code_simp
  have c: "\<not> prefix ''--'' (numericChars (trim (toStr (JString ''-$5.8K''))))"
    by (simp add: numericChars_def isDigit_def eval_str)
  have "text (formatFinancialNumber
          (JString (text (formatFinancialNumber (JString ''-$5.8K'')))))
        = text (formatFinancialNumber (JString ''-$5.8K''))"
    unfolding a b ..
  from formatFinancialNumber_reclassify [OF this] a b c
  show ?thesis by simp
qed

theorem formatFinancialNumber_reclassify_counterexample:
  "text (formatFinancialNumber (JString ''--0%'')) = ''(-0%)''
   \<and> text (formatFinancialNumber (JString ''(-0%)'')) = ''(-0%)''
   \<and> \<not> isZero (formatFinancialNumber (JString ''--0%''))
   \<and> isZero (formatFinancialNumber (JString ''(-0%)''))"
proof -
  have "formatFinancialNumber (JString ''--0%'') =
      \<lparr> text = ''(-0%)'', isNegative = True, isPositive = False,
        isZero = False, isNA = False \<rparr>"
    by code_simp
  moreover have "formatFinancialNumber (JString ''(-0%)'') =
      \<lparr> text = ''(-0%)'', isNegative = True, isPositive = False,
        isZero = True, isNA = False \<rparr>"
    by code_simp
  ultimately show ?thesis by simp
qed

lemma last_reformat: "last (reformat s) = CHR '')''"
  by (simp add: reformat_def)

text \<open>
  C6 (as amended). \<open>formatFinancialNumber\<close> classifies a value as Not-Applicable
  exactly when it is \<open>null\<close>, \<open>undefined\<close> or the empty string (before any
  trimming), or its lower-cased text contains "n/a" or "data not provided", or its
  lower-cased text is exactly "n/m" or "nm" (untrimmed). The display text is "N/A"
  exactly when the value is classified Not-Applicable.
\<close>

theorem formatFinancialNumber_isNA:
  "(isNA (formatFinancialNumber v) \<longleftrightarrow>
      (case v of
         JNull \<Rightarrow> True
       | JUndefined \<Rightarrow> True
       | JString s \<Rightarrow>
           s = [] \<or>
           sublist ''n/a'' (toLowerCase s) \<or>
           sublist ''data not provided'' (toLowerCase s) \<or>
           toLowerCase s = ''n/m'' \<or>
           toLowerCase s = ''nm''))
   \<and> (text (formatFinancialNumber v) = ''N/A'') = isNA (formatFinancialNumber v)"
proof -
  have iff: "isNA (formatFinancialNumber v) = naTest v"
    using formatTrimmed_cases [of "trim (toStr v)"]
    by (auto simp: formatFinancialNumber_parts naResult_def zeroResult_def)
  have nt: "naTest v =
      (case v of
         JNull \<Rightarrow> True
       | JUndefined \<Rightarrow> True
       | JString s \<Rightarrow>
           s = [] \<or>
           sublist ''n/a'' (toLowerCase s) \<or>
           sublist ''data not provided'' (toLowerCase s) \<or>
           toLowerCase s = ''n/m'' \<or>
           toLowerCase s = ''nm'')"
    by (cases v) (simp_all add: naTest_def includesStr_sublist eval_str)
  have tx: "(text (formatFinancialNumber v) = ''N/A'') = naTest v"
  proof (cases "naTest v")
    case True
    then show ?thesis by (simp add: formatFinancialNumber_parts naResult_def)
  next
    case False
    then obtain x where v: "v = JString x"
      by (cases v) (auto simp: naTest_def)
    let ?s = "trim x"
    have "?s \<noteq> ''N/A''"
    proof
      assume eq: "?s = ''N/A''"
      have "naTest (JString ?s)"
        unfolding eq by (simp add: naTest_def eval_str)
      from naTest_trim [OF this] False eq show False by (simp add: v)
    qed
    moreover have "reformat ?s \<noteq> ''N/A''"
      using last_reformat [of ?s] by auto
    moreover have "emDash \<noteq> ''N/A''" by (simp add: emDash_def)
    ultimately have "text (formatTrimmed ?s) \<noteq> ''N/A''"
      using formatTrimmed_cases [of ?s] by (auto simp: zeroResult_def split: if_splits)
    then show ?thesis using False by (simp add: formatFinancialNumber_parts v)
  qed
  show ?thesis using iff nt tx by simp
qed

theorem formatFinancialNumber_isNA_counterexample:
  "spec_isNotApplicable ''   ''
   \<and> \<not> isNA (formatFinancialNumber (JString ''   ''))
   \<and> spec_isNotApplicable '' n/m ''
   \<and> \<not> isNA (formatFinancialNumber (JString '' n/m ''))
   \<and> \<not> spec_isNotApplicable ''Plan/Actual''
   \<and> isNA (formatFinancialNumber (JString ''Plan/Actual''))"
proof (intro conjI)
  show "spec_isNotApplicable ''   ''" by code_simp
  show "\<not> isNA (formatFinancialNumber (JString ''   ''))" by code_simp
  show "spec_isNotApplicable '' n/m ''" by code_simp
  show "\<not> isNA (formatFinancialNumber (JString '' n/m ''))" by code_simp
  show "\<not> spec_isNotApplicable ''Plan/Actual''" by code_simp
  show "isNA (formatFinancialNumber (JString ''Plan/Actual''))" by code_simp
qed

end
